theory Spec2Isabelle
  imports Complex_Main "HOL-Library.Char_ord" "HOL-Library.List_Lexorder" "HOL-Library.Sublist"
begin

section \<open>Strings of the host language\<close>

text \<open>
  A string is the list of its code units, and the type holds the code units below 256:
  ASCII and the Latin-1 supplement. White space, for \<^verbatim>\<open>\s\<close>, \<^verbatim>\<open>trim\<close> and \<^verbatim>\<open>parseInt\<close>, is
  the white space and the line terminators among them: tab, line feed, vertical tab, form
  feed, carriage return, space and the no-break space.
\<close>

definition isSpace :: "char \<Rightarrow> bool" where
  "isSpace c \<longleftrightarrow>
     c \<in> set [CHR 0x09, CHR 0x0A, CHR 0x0B, CHR 0x0C, CHR 0x0D, CHR 0x20, CHR 0xA0]"

definition trim :: "string \<Rightarrow> string" where
  "trim s = rev (dropWhile isSpace (rev (dropWhile isSpace s)))"

text \<open>
  Case conversion of one code unit: the 26 ASCII letters and the letters of the Latin-1
  supplement, \<open>0xC0\<close> to \<open>0xDE\<close> without the multiplication sign against \<open>0xE0\<close> to
  \<open>0xFE\<close> without the division sign. The micro sign and the y with diaeresis have their
  upper case above \<open>0xFF\<close> and stay as they are; so does the sharp s, which only the
  conversion of a whole string expands.
\<close>

definition lower_letters :: string where
  "lower_letters = ''abcdefghijklmnopqrstuvwxyz''"

definition upper_letters :: string where
  "upper_letters = ''ABCDEFGHIJKLMNOPQRSTUVWXYZ''"

definition latin_lower :: string where
  "latin_lower =
     [CHR 0xE0, CHR 0xE1, CHR 0xE2, CHR 0xE3, CHR 0xE4, CHR 0xE5, CHR 0xE6, CHR 0xE7,
      CHR 0xE8, CHR 0xE9, CHR 0xEA, CHR 0xEB, CHR 0xEC, CHR 0xED, CHR 0xEE, CHR 0xEF,
      CHR 0xF0, CHR 0xF1, CHR 0xF2, CHR 0xF3, CHR 0xF4, CHR 0xF5, CHR 0xF6,
      CHR 0xF8, CHR 0xF9, CHR 0xFA, CHR 0xFB, CHR 0xFC, CHR 0xFD, CHR 0xFE]"

definition latin_upper :: string where
  "latin_upper =
     [CHR 0xC0, CHR 0xC1, CHR 0xC2, CHR 0xC3, CHR 0xC4, CHR 0xC5, CHR 0xC6, CHR 0xC7,
      CHR 0xC8, CHR 0xC9, CHR 0xCA, CHR 0xCB, CHR 0xCC, CHR 0xCD, CHR 0xCE, CHR 0xCF,
      CHR 0xD0, CHR 0xD1, CHR 0xD2, CHR 0xD3, CHR 0xD4, CHR 0xD5, CHR 0xD6,
      CHR 0xD8, CHR 0xD9, CHR 0xDA, CHR 0xDB, CHR 0xDC, CHR 0xDD, CHR 0xDE]"

definition toUpperChar :: "char \<Rightarrow> char" where
  "toUpperChar c =
     (case map_of (zip (lower_letters @ latin_lower) (upper_letters @ latin_upper)) c of
        Some u \<Rightarrow> u
      | None \<Rightarrow> c)"

definition toLowerChar :: "char \<Rightarrow> char" where
  "toLowerChar c =
     (case map_of (zip (upper_letters @ latin_upper) (lower_letters @ latin_lower)) c of
        Some l \<Rightarrow> l
      | None \<Rightarrow> c)"

text \<open>\<^verbatim>\<open>s.toUpperCase()\<close> writes the sharp s as \<^verbatim>\<open>SS\<close>.\<close>

definition toUpperCase :: "string \<Rightarrow> string" where
  "toUpperCase s = concat (map (\<lambda>c. if c = CHR 0xDF then ''SS'' else [toUpperChar c]) s)"

definition toLowerCase :: "string \<Rightarrow> string" where
  "toLowerCase s = map toLowerChar s"

text \<open>\<^verbatim>\<open>s.includes(t)\<close>: \<open>t\<close> occurs in \<open>s\<close> as a contiguous piece.\<close>

fun includes_str :: "string \<Rightarrow> string \<Rightarrow> bool" where
  "includes_str [] t = (t = [])"
| "includes_str (c # cs) t = (prefix t (c # cs) \<or> includes_str cs t)"

text \<open>\<^verbatim>\<open>xs.join(sep)\<close> on a list of strings.\<close>

fun join :: "string \<Rightarrow> string list \<Rightarrow> string" where
  "join sep [] = []"
| "join sep [x] = x"
| "join sep (x # y # ys) = x @ sep @ join sep (y # ys)"

text \<open>
  \<^verbatim>\<open>[...new Set(letters)].sort().join(", ")\<close> on the letters a \<^verbatim>\<open>/[A-F]/g\<close> match returns.
  Each match is one character, so the letters are kept as characters; the default sort
  orders them by code unit.
\<close>

definition isAF :: "char \<Rightarrow> bool" where
  "isAF c \<longleftrightarrow> c \<in> set ''ABCDEF''"

definition matchAF :: "string \<Rightarrow> char list" where
  "matchAF s = filter isAF s"

definition letterSet :: "char list \<Rightarrow> string" where
  "letterSet letters = join '', '' (map (\<lambda>c. [c]) (sort (remdups letters)))"

section \<open>Regular expressions\<close>

text \<open>
  The regular expressions of the source are terms of \<open>rexp\<close>, run by a backtracking
  matcher. \<open>ms r s\<close> lists what is left of \<open>s\<close> after each way \<open>r\<close> matches at its start,
  in the order the host's matcher tries them: a greedy star takes an iteration before it
  stops, a lazy star stops before it takes one, an alternative tries its left branch first,
  and an iteration that consumes nothing is not taken. The first element is the match the
  host reports.
\<close>

datatype rexp =
    Eps
  | Atom "char \<Rightarrow> bool"
  | End
  | Seq rexp rexp
  | Alt rexp rexp
  | Star rexp
  | LazyStar rexp

fun ms :: "rexp \<Rightarrow> string \<Rightarrow> string list" where
  "ms Eps s = [s]"
| "ms (Atom P) s = (case s of [] \<Rightarrow> [] | c # cs \<Rightarrow> if P c then [cs] else [])"
| "ms End s = (if s = [] then [s] else [])"
| "ms (Seq a b) s = concat (map (ms b) (ms a s))"
| "ms (Alt a b) s = ms a s @ ms b s"
| "ms (Star a) s =
     concat (map (\<lambda>s'. if length s' < length s then ms (Star a) s' else []) (ms a s)) @ [s]"
| "ms (LazyStar a) s =
     s # concat (map (\<lambda>s'. if length s' < length s then ms (LazyStar a) s' else []) (ms a s))"

definition Opt :: "rexp \<Rightarrow> rexp" where
  "Opt r = Alt r Eps"

definition Plus :: "rexp \<Rightarrow> rexp" where
  "Plus r = Seq r (Star r)"

definition chr :: "char \<Rightarrow> rexp" where
  "chr c = Atom (\<lambda>x. x = c)"

definition lit :: "string \<Rightarrow> rexp" where
  "lit s = foldr (\<lambda>c. Seq (chr c)) s Eps"

text \<open>A literal under the \<^verbatim>\<open>i\<close> flag: characters are compared after upper-casing.\<close>

definition lit_i :: "string \<Rightarrow> rexp" where
  "lit_i s = foldr (\<lambda>c. Seq (Atom (\<lambda>x. toUpperChar x = toUpperChar c))) s Eps"

definition ws :: rexp where
  "ws = Atom isSpace"

definition anychar :: rexp where
  "anychar = Atom (\<lambda>c. True)"

text \<open>\<^verbatim>\<open>.\<close> matches everything but a line terminator.\<close>

definition dot :: rexp where
  "dot = Atom (\<lambda>c. c \<noteq> CHR 0x0A \<and> c \<noteq> CHR 0x0D)"

text \<open>\<^verbatim>\<open>[A-F]\<close> under the \<^verbatim>\<open>i\<close> flag.\<close>

definition AF_i :: rexp where
  "AF_i = Atom (\<lambda>c. isAF (toUpperChar c))"

definition match_here :: "rexp \<Rightarrow> string \<Rightarrow> string option" where
  "match_here r s = (case ms r s of [] \<Rightarrow> None | rest # _ \<Rightarrow> Some rest)"

text \<open>\<^verbatim>\<open>s.match(r)\<close> without the \<^verbatim>\<open>g\<close> flag: the text of the leftmost match.\<close>

fun search :: "rexp \<Rightarrow> string \<Rightarrow> string option" where
  "search r [] = (case match_here r [] of Some rest \<Rightarrow> Some [] | None \<Rightarrow> None)"
| "search r (c # cs) =
     (case match_here r (c # cs) of
        Some rest \<Rightarrow> Some (take (length (c # cs) - length rest) (c # cs))
      | None \<Rightarrow> search r cs)"

text \<open>\<^verbatim>\<open>/^r$/.test(s)\<close>: the whole of \<open>s\<close> matches \<open>r\<close>.\<close>

definition test_whole :: "rexp \<Rightarrow> string \<Rightarrow> bool" where
  "test_whole r s \<longleftrightarrow> ms (Seq r End) s \<noteq> []"

text \<open>\<^verbatim>\<open>s.replace(r, "")\<close> with the \<^verbatim>\<open>g\<close> flag: every match, left to right, is removed.\<close>

fun replace_all :: "rexp \<Rightarrow> string \<Rightarrow> string" where
  "replace_all r [] = []"
| "replace_all r (c # cs) =
     (case match_here r (c # cs) of
        Some rest \<Rightarrow>
          if length rest < length (c # cs) then replace_all r rest else c # replace_all r cs
      | None \<Rightarrow> c # replace_all r cs)"

text \<open>
  A match of \<open>pre\<close>, then the capture group \<open>grp\<close>, then \<open>post\<close>: the text the group
  captured in the first way, in the matcher's order, the three match one after another.
\<close>

definition exec_group :: "rexp \<Rightarrow> rexp \<Rightarrow> rexp \<Rightarrow> string \<Rightarrow> string option" where
  "exec_group pre grp post s =
     (case concat (map (\<lambda>s1. concat (map (\<lambda>s2. if ms post s2 = [] then []
                                                  else [take (length s1 - length s2) s1])
                                     (ms grp s1)))
                       (ms pre s)) of
        [] \<Rightarrow> None
      | g # _ \<Rightarrow> Some g)"

fun search_group :: "rexp \<Rightarrow> rexp \<Rightarrow> rexp \<Rightarrow> string \<Rightarrow> string option" where
  "search_group pre grp post [] = exec_group pre grp post []"
| "search_group pre grp post (c # cs) =
     (case exec_group pre grp post (c # cs) of
        Some g \<Rightarrow> Some g
      | None \<Rightarrow> search_group pre grp post cs)"

section \<open>JSON values and their coercions\<close>

text \<open>
  What \<^verbatim>\<open>JSON.parse\<close> returns. A number is kept as the text \<^verbatim>\<open>String(n)\<close> gives for it
  (\<open>JNum ''120''\<close>), which is all the program ever reads of a number. An object lists its
  own properties, each key once. \<^verbatim>\<open>JSON.parse\<close> itself belongs to the platform: the
  functions below take it as the parameter \<open>jp\<close>, \<open>None\<close> standing for a thrown
  \<^verbatim>\<open>SyntaxError\<close>.
\<close>

datatype json =
    JNull
  | JBool bool
  | JNum string
  | JStr string
  | JArr "json list"
  | JObj "(string \<times> json) list"

type_synonym json_parse = "string \<Rightarrow> json option"

text \<open>
  \<^verbatim>\<open>v.name\<close> for the property names the program reads (\<^verbatim>\<open>answer\<close>, \<^verbatim>\<open>confidence\<close>,
  \<^verbatim>\<open>error\<close>, \<^verbatim>\<open>code\<close>, \<^verbatim>\<open>status\<close>), none of which a built-in prototype defines. The outer
  \<open>None\<close> is the \<^verbatim>\<open>TypeError\<close> of reading a property of \<^verbatim>\<open>null\<close>, \<open>Some None\<close> is
  \<^verbatim>\<open>undefined\<close>.
\<close>

fun getProp :: "json \<Rightarrow> string \<Rightarrow> json option option" where
  "getProp JNull name = None"
| "getProp (JObj kvs) name = Some (map_of kvs name)"
| "getProp v name = Some None"

fun truthy :: "json option \<Rightarrow> bool" where
  "truthy None = False"
| "truthy (Some JNull) = False"
| "truthy (Some (JBool b)) = b"
| "truthy (Some (JNum n)) = (n \<noteq> ''0'')"
| "truthy (Some (JStr s)) = (s \<noteq> [])"
| "truthy (Some (JArr xs)) = True"
| "truthy (Some (JObj kvs)) = True"

text \<open>
  \<^verbatim>\<open>String(v)\<close>. An array joins its elements with commas, \<^verbatim>\<open>null\<close> elements as empty
  strings. A parsed object prints as \<^verbatim>\<open>[object Object]\<close> unless it has a property
  \<^verbatim>\<open>toString\<close> of its own, which is never callable: then the conversion throws (\<open>None\<close>).
\<close>

fun all_some :: "'a option list \<Rightarrow> 'a list option" where
  "all_some [] = Some []"
| "all_some (None # xs) = None"
| "all_some (Some x # xs) = (case all_some xs of None \<Rightarrow> None | Some ys \<Rightarrow> Some (x # ys))"

fun toString :: "json \<Rightarrow> string option" where
  "toString JNull = Some ''null''"
| "toString (JBool b) = Some (if b then ''true'' else ''false'')"
| "toString (JNum n) = Some n"
| "toString (JStr s) = Some s"
| "toString (JArr xs) =
     map_option (join '','')
       (all_some (map (\<lambda>x. if x = JNull then Some [] else toString x) xs))"
| "toString (JObj kvs) =
     (if ''toString'' \<in> set (map fst kvs) then None else Some ''[object Object]'')"

definition String_of :: "json option \<Rightarrow> string option" where
  "String_of v = (case v of None \<Rightarrow> Some ''undefined'' | Some x \<Rightarrow> toString x)"

text \<open>
  \<^verbatim>\<open>parseInt(s)\<close> on a string: leading white space, a sign, \<^verbatim>\<open>0x\<close> for radix 16, then the
  longest run of digits; \<open>None\<close> is \<^verbatim>\<open>NaN\<close>.
\<close>

definition digit_of :: "char \<Rightarrow> nat option" where
  "digit_of c = map_of (zip ''0123456789abcdefABCDEF''
                            [0, 1, 2, 3, 4, 5, 6, 7, 8, 9, 10, 11, 12, 13, 14, 15, 10, 11, 12, 13, 14, 15]) c"

definition isDigit :: "nat \<Rightarrow> char \<Rightarrow> bool" where
  "isDigit radix c = (case digit_of c of None \<Rightarrow> False | Some d \<Rightarrow> d < radix)"

definition digits_value :: "int \<Rightarrow> string \<Rightarrow> int" where
  "digits_value radix ds =
     foldl (\<lambda>a c. a * radix + (case digit_of c of None \<Rightarrow> 0 | Some d \<Rightarrow> int d)) 0 ds"

definition parseInt :: "string \<Rightarrow> int option" where
  "parseInt s =
     (let s1 = dropWhile isSpace s;
          neg = prefix ''-'' s1;
          s2 = (if prefix ''-'' s1 \<or> prefix ''+'' s1 then drop 1 s1 else s1);
          hex = (prefix ''0x'' s2 \<or> prefix ''0X'' s2);
          s3 = (if hex then drop 2 s2 else s2);
          ds = takeWhile (isDigit (if hex then 16 else 10)) s3
      in if ds = [] then None
         else Some ((if neg then - 1 else 1) * digits_value (if hex then 16 else 10) ds))"

section \<open>Answer Parser\<close>

text \<open>
  The object literal both JSON branches of \<^verbatim>\<open>parseAnswerWithConfidence\<close> return:
  \<^verbatim>\<open>{ answer: String(parsed.answer || "").toUpperCase(),
     confidence: Math.min(100, Math.max(0, parseInt(parsed.confidence) || 50)) }\<close>.
  \<open>None\<close> when building it throws, which the enclosing \<^verbatim>\<open>try\<close> swallows.
  \<^verbatim>\<open>x || 50\<close> takes 50 for \<^verbatim>\<open>NaN\<close> and for 0.
\<close>

definition readAnswer :: "json \<Rightarrow> (string \<times> int) option" where
  "readAnswer parsed =
     (case (getProp parsed ''answer'', getProp parsed ''confidence'') of
        (Some a, Some c) \<Rightarrow>
          (case (if truthy a then String_of a else Some [], String_of c) of
             (Some s, Some cs) \<Rightarrow>
               Some (toUpperCase s,
                     min 100 (max 0 (case parseInt cs of
                                       None \<Rightarrow> 50
                                     | Some n \<Rightarrow> if n = 0 then 50 else n)))
           | _ \<Rightarrow> None)
      | _ \<Rightarrow> None)"

text \<open>\<^verbatim>\<open>/```json\n?|\n?```/g\<close>\<close>

definition fence_re :: rexp where
  "fence_re = Alt (Seq (lit ''```json'') (Opt (chr CHR 0x0A)))
                  (Seq (Opt (chr CHR 0x0A)) (lit ''```''))"

text \<open>\<^verbatim>\<open>/\{[\s\S]*?"answer"[\s\S]*?\}/\<close>\<close>

definition object_re :: rexp where
  \<open>object_re = Seq (chr CHR ''{'') (Seq (LazyStar anychar) (Seq (lit ''"answer"'')
                  (Seq (LazyStar anychar) (chr CHR ''}''))))\<close>

text \<open>\<^verbatim>\<open>/```json|```/g\<close>\<close>

definition fence_inner_re :: rexp where
  "fence_inner_re = Alt (lit ''```json'') (lit ''```'')"

text \<open>\<^verbatim>\<open>/^(true|false)$/i\<close>, without its anchors.\<close>

definition true_false_re :: rexp where
  "true_false_re = Alt (lit_i ''true'') (lit_i ''false'')"

text \<open>\<^verbatim>\<open>/^\s*([A-F])(?:\s*[,\s]\s*([A-F]))*\s*$/i\<close>, without its anchors.\<close>

definition answerPattern_re :: rexp where
  "answerPattern_re =
     Seq (Star ws) (Seq AF_i
       (Seq (Star (Seq (Star ws) (Seq (Atom (\<lambda>c. c = CHR '','' \<or> isSpace c))
                                      (Seq (Star ws) AF_i))))
            (Star ws)))"

text \<open>
  \<^verbatim>\<open>/(?:answer|jawaban|option)\s*:?\s*(\*+)?\s*([A-F](?:,\s*[A-F])*)(?:\s|$|\*)/i\<close>
  in three pieces: what precedes the second group, the group, what follows it.
\<close>

definition label_pre_re :: rexp where
  "label_pre_re =
     Seq (Alt (lit_i ''answer'') (Alt (lit_i ''jawaban'') (lit_i ''option'')))
       (Seq (Star ws) (Seq (Opt (chr CHR '':'')) (Seq (Star ws)
          (Seq (Opt (Plus (chr CHR ''*''))) (Star ws)))))"

definition label_group_re :: rexp where
  "label_group_re = Seq AF_i (Star (Seq (chr CHR '','') (Seq (Star ws) AF_i)))"

definition label_post_re :: rexp where
  "label_post_re = Alt ws (Alt End (chr CHR ''*''))"

text \<open>
  The resolution steps of \<^verbatim>\<open>parseAnswerWithConfidence\<close>, in the order of the source, each
  on the trimmed text; \<open>None\<close> is a step that falls through to the next.
\<close>

definition parse_whole_json :: "json_parse \<Rightarrow> string \<Rightarrow> (string \<times> int) option" where
  "parse_whole_json jp text =
     (case jp (trim (replace_all fence_re text)) of
        None \<Rightarrow> None
      | Some parsed \<Rightarrow> readAnswer parsed)"

definition parse_embedded_json :: "json_parse \<Rightarrow> string \<Rightarrow> (string \<times> int) option" where
  "parse_embedded_json jp text =
     (case search object_re text of
        None \<Rightarrow> None
      | Some jsonStr \<Rightarrow>
          (case jp (trim (replace_all fence_inner_re jsonStr)) of
             None \<Rightarrow> None
           | Some parsed \<Rightarrow> readAnswer parsed))"

definition parse_true_false :: "string \<Rightarrow> (string \<times> int) option" where
  "parse_true_false text =
     (if test_whole true_false_re text then Some (toLowerCase text, 85) else None)"

definition parse_letter_list :: "string \<Rightarrow> (string \<times> int) option" where
  "parse_letter_list text =
     (if test_whole answerPattern_re text then
        (let letters = matchAF (toUpperCase text)
         in if 0 < length letters \<and> length letters \<le> 6 then Some (letterSet letters, 70)
            else None)
      else None)"

definition parse_labelled :: "string \<Rightarrow> (string \<times> int) option" where
  "parse_labelled text =
     (case search_group label_pre_re label_group_re label_post_re text of
        None \<Rightarrow> None
      | Some g \<Rightarrow>
          (let letters = matchAF (toUpperCase g)
           in if letters \<noteq> [] then Some (letterSet letters, 65) else None))"

definition parse_short :: "string \<Rightarrow> (string \<times> int) option" where
  "parse_short text =
     (if length text \<le> 10 then
        (let letters = matchAF (toUpperCase text)
         in if 0 < length letters \<and> length letters \<le> 4 then Some (letterSet letters, 60)
            else None)
      else None)"

text \<open>\<open>rawText\<close> is \<^verbatim>\<open>string | null\<close>; \<^verbatim>\<open>!rawText\<close> holds of \<^verbatim>\<open>null\<close> and of the empty string.\<close>

definition parseAnswerWithConfidence :: "json_parse \<Rightarrow> string option \<Rightarrow> string \<times> int" where
  "parseAnswerWithConfidence jp rawText =
     (case rawText of
        None \<Rightarrow> ([], 50)
      | Some rawStr \<Rightarrow>
          if rawStr = [] then ([], 50)
          else
            (let text = trim rawStr in
             case parse_whole_json jp text of Some r \<Rightarrow> r | None \<Rightarrow>
             (case parse_embedded_json jp text of Some r \<Rightarrow> r | None \<Rightarrow>
             (case parse_true_false text of Some r \<Rightarrow> r | None \<Rightarrow>
             (case parse_letter_list text of Some r \<Rightarrow> r | None \<Rightarrow>
             (case parse_labelled text of Some r \<Rightarrow> r | None \<Rightarrow>
             (case parse_short text of Some r \<Rightarrow> r | None \<Rightarrow>
             ([], 0))))))))"

text \<open>
  For the statements about the parser. What the two JSON steps return on the trimmed text:
  the result of the first of them that returns. And the guards of the four pattern steps,
  as the source tests them: the text spells a boolean; it is a list of at most six letters;
  a letter follows one of the words \<^verbatim>\<open>answer\<close>, \<^verbatim>\<open>jawaban\<close>, \<^verbatim>\<open>option\<close>; it has at most ten
  characters, between one and four of them letters.
\<close>

definition json_reading :: "json_parse \<Rightarrow> string \<Rightarrow> (string \<times> int) option" where
  "json_reading jp text =
     (case parse_whole_json jp text of
        Some r \<Rightarrow> Some r
      | None \<Rightarrow> parse_embedded_json jp text)"

definition spells_boolean :: "string \<Rightarrow> bool" where
  "spells_boolean text \<longleftrightarrow> test_whole true_false_re text"

definition lists_letters :: "string \<Rightarrow> bool" where
  "lists_letters text \<longleftrightarrow>
     test_whole answerPattern_re text
     \<and> 0 < length (matchAF (toUpperCase text)) \<and> length (matchAF (toUpperCase text)) \<le> 6"

definition labels_letters :: "string \<Rightarrow> bool" where
  "labels_letters text \<longleftrightarrow>
     (case search_group label_pre_re label_group_re label_post_re text of
        None \<Rightarrow> False
      | Some g \<Rightarrow> matchAF (toUpperCase g) \<noteq> [])"

definition few_letters :: "string \<Rightarrow> bool" where
  "few_letters text \<longleftrightarrow>
     length text \<le> 10
     \<and> 0 < length (matchAF (toUpperCase text)) \<and> length (matchAF (toUpperCase text)) \<le> 4"

definition no_pattern :: "string \<Rightarrow> bool" where
  "no_pattern text \<longleftrightarrow>
     \<not> spells_boolean text \<and> \<not> lists_letters text \<and> \<not> labels_letters text
     \<and> \<not> few_letters text"

section \<open>A JSON reader for concrete runs\<close>

text \<open>
  \<open>JSON_parse\<close> reads the JSON texts made of objects, arrays, strings without escapes,
  integer numerals of at most 15 digits and the three literals, and is \<open>None\<close> on every
  other text. It instantiates the parameter \<open>jp\<close> where a theorem runs the program on a
  concrete input; the texts used there are of this kind, or are no JSON at all.
\<close>

definition json_ws :: "char \<Rightarrow> bool" where
  "json_ws c \<longleftrightarrow> c \<in> set [CHR 0x20, CHR 0x09, CHR 0x0A, CHR 0x0D]"

definition skip :: "string \<Rightarrow> string" where
  "skip s = dropWhile json_ws s"

fun json_string :: "string \<Rightarrow> (string \<times> string) option" where
  "json_string [] = None"
| "json_string (c # cs) =
     (if c = CHR 0x22 then Some ([], cs)
      else if c = CHR 0x5C \<or> (of_char c :: nat) < 0x20 then None
      else (case json_string cs of None \<Rightarrow> None | Some (str, r) \<Rightarrow> Some (c # str, r)))"

definition json_number :: "string \<Rightarrow> (json \<times> string) option" where
  "json_number s =
     (let neg = prefix ''-'' s;
          s1 = (if neg then drop 1 s else s);
          ds = takeWhile (isDigit 10) s1;
          r = dropWhile (isDigit 10) s1
      in if ds = [] \<or> (1 < length ds \<and> prefix ''0'' ds) \<or> 15 < length ds
            \<or> prefix ''.'' r \<or> prefix ''e'' r \<or> prefix ''E'' r
         then None
         else Some (JNum (if neg \<and> ds \<noteq> ''0'' then CHR ''-'' # ds else ds), r))"

fun put :: "string \<Rightarrow> json \<Rightarrow> (string \<times> json) list \<Rightarrow> (string \<times> json) list" where
  "put k v [] = [(k, v)]"
| "put k v ((k', v') # kvs) = (if k' = k then (k, v) # kvs else (k', v') # put k v kvs)"

fun json_value :: "nat \<Rightarrow> string \<Rightarrow> (json \<times> string) option"
  and json_elements :: "nat \<Rightarrow> string \<Rightarrow> (json list \<times> string) option"
  and json_members :: "nat \<Rightarrow> string \<Rightarrow> ((string \<times> json) list \<times> string) option" where
  "json_value 0 s = None"
| "json_value (Suc n) s =
     (let t = skip s in
      if prefix ''{'' t then
        (if prefix ''}'' (skip (drop 1 t)) then Some (JObj [], skip (drop 1 (skip (drop 1 t))))
         else (case json_members n (drop 1 t) of
                 None \<Rightarrow> None
               | Some (kvs, r) \<Rightarrow> Some (JObj (foldl (\<lambda>acc (k, v). put k v acc) [] kvs), skip r)))
      else if prefix ''['' t then
        (if prefix '']'' (skip (drop 1 t)) then Some (JArr [], skip (drop 1 (skip (drop 1 t))))
         else (case json_elements n (drop 1 t) of
                 None \<Rightarrow> None
               | Some (vs, r) \<Rightarrow> Some (JArr vs, skip r)))
      else if prefix [CHR 0x22] t then
        (case json_string (drop 1 t) of
           None \<Rightarrow> None
         | Some (str, r) \<Rightarrow> Some (JStr str, skip r))
      else if prefix ''true'' t then Some (JBool True, skip (drop 4 t))
      else if prefix ''false'' t then Some (JBool False, skip (drop 5 t))
      else if prefix ''null'' t then Some (JNull, skip (drop 4 t))
      else (case json_number t of None \<Rightarrow> None | Some (v, r) \<Rightarrow> Some (v, skip r)))"
| "json_elements 0 s = None"
| "json_elements (Suc n) s =
     (case json_value n s of
        None \<Rightarrow> None
      | Some (v, r) \<Rightarrow>
          if prefix '','' r then
            (case json_elements n (drop 1 r) of
               None \<Rightarrow> None
             | Some (vs, r') \<Rightarrow> Some (v # vs, r'))
          else if prefix '']'' r then Some ([v], drop 1 r)
          else None)"
| "json_members 0 s = None"
| "json_members (Suc n) s =
     (let t = skip s in
      if prefix [CHR 0x22] t then
        (case json_string (drop 1 t) of
           None \<Rightarrow> None
         | Some (k, r) \<Rightarrow>
             if prefix '':'' (skip r) then
               (case json_value n (drop 1 (skip r)) of
                  None \<Rightarrow> None
                | Some (v, r2) \<Rightarrow>
                    if prefix '','' r2 then
                      (case json_members n (drop 1 r2) of
                         None \<Rightarrow> None
                       | Some (kvs, r3) \<Rightarrow> Some ((k, v) # kvs, r3))
                    else if prefix ''}'' r2 then Some ([(k, v)], drop 1 r2)
                    else None)
             else None)
      else None)"

definition JSON_parse :: json_parse where
  "JSON_parse s =
     (case json_value (length s + 2) s of
        Some (v, r) \<Rightarrow> if r = [] then Some v else None
      | None \<Rightarrow> None)"

section \<open>Error formatter\<close>

text \<open>
  A thrown \<^verbatim>\<open>Error\<close> with its \<^verbatim>\<open>name\<close> and \<^verbatim>\<open>message\<close>. \<^verbatim>\<open>formatError\<close> takes an
  \<^verbatim>\<open>Error\<close> or a string.
\<close>

datatype js_error = JsError (err_name: string) (message: string)

datatype error_arg = ErrObj js_error | ErrStr string

text \<open>
  The icons of the program's own messages lie above \<open>0xFF\<close>. They are written as their
  UTF-8 bytes; the program only joins them to other text.
\<close>

definition icon_busy :: string where
  "icon_busy = [CHR 0xF0, CHR 0x9F, CHR 0x94, CHR 0x84]"

definition icon_rate :: string where
  "icon_rate = [CHR 0xE2, CHR 0x8F, CHR 0xB3]"

definition icon_key :: string where
  "icon_key = [CHR 0xF0, CHR 0x9F, CHR 0x94, CHR 0x91]"

definition icon_unknown_model :: string where
  "icon_unknown_model = [CHR 0xE2, CHR 0x9D, CHR 0x93]"

definition icon_timeout :: string where
  "icon_timeout = [CHR 0xE2, CHR 0x8F, CHR 0xB0]"

definition icon_blocked :: string where
  "icon_blocked = [CHR 0xF0, CHR 0x9F, CHR 0x9A, CHR 0xAB]"

definition icon_network :: string where
  "icon_network = [CHR 0xF0, CHR 0x9F, CHR 0x93, CHR 0xA1]"

definition icon_empty :: string where
  "icon_empty = [CHR 0xF0, CHR 0x9F, CHR 0x93, CHR 0xAD]"

text \<open>
  \<^verbatim>\<open>String(error.message || error || "Unknown error")\<close>. An \<^verbatim>\<open>Error\<close> is truthy, and with
  an empty message it prints as its name.
\<close>

definition error_text :: "error_arg \<Rightarrow> string" where
  "error_text error =
     (case error of
        ErrObj e \<Rightarrow> if message e \<noteq> [] then message e else err_name e
      | ErrStr s \<Rightarrow> if s \<noteq> [] then s else ''Unknown error'')"

text \<open>\<^verbatim>\<open>/\{"error".*\}/\<close>\<close>

definition error_re :: rexp where
  \<open>error_re = Seq (lit ''{"error"'') (Seq (Star dot) (chr CHR ''}''))\<close>

text \<open>\<^verbatim>\<open>v?.name\<close>\<close>

definition optChain :: "json option \<Rightarrow> string \<Rightarrow> json option" where
  "optChain v name =
     (case v of
        None \<Rightarrow> None
      | Some x \<Rightarrow> (case getProp x name of None \<Rightarrow> None | Some p \<Rightarrow> p))"

text \<open>
  The \<^verbatim>\<open>try\<close> block of \<^verbatim>\<open>formatError\<close>: \<open>Some s\<close> when it returns \<open>s\<close>, \<open>None\<close> when control
  leaves it, by falling out of it or by an exception it swallows.
\<close>

definition formatError_json :: "json_parse \<Rightarrow> string \<Rightarrow> string option" where
  \<open>formatError_json jp msg =
     (if includes_str msg ''{"error"'' then
        (case search error_re msg of
           None \<Rightarrow> None
         | Some jsonMatch \<Rightarrow>
             (case jp jsonMatch of
                None \<Rightarrow> None
              | Some parsed \<Rightarrow>
                  (case getProp parsed ''error'' of
                     None \<Rightarrow> None
                   | Some e \<Rightarrow>
                       (let code = optChain e ''code'';
                            status = optChain e ''status''
                        in if code = Some (JNum ''503'') \<or> status = Some (JStr ''UNAVAILABLE'')
                             then Some (icon_busy @ '' Server Sibuk'')
                           else if code = Some (JNum ''429'')
                             then Some (icon_rate @ '' Rate limit'')
                           else if code = Some (JNum ''400'') \<and> includes_str msg ''API key expired''
                             then Some (icon_key @ '' API key expired'')
                           else if code = Some (JNum ''400'') \<and> includes_str msg ''API_KEY_INVALID''
                             then Some (icon_key @ '' API key invalid'')
                           else if code = Some (JNum ''401'')
                             then Some (icon_key @ '' API key salah'')
                           else if code = Some (JNum ''404'')
                             then Some (icon_unknown_model @ '' Model tidak ada'')
                           else None))))
      else None)\<close>

definition formatError :: "json_parse \<Rightarrow> error_arg \<Rightarrow> string" where
  "formatError jp error =
     (let msg = error_text error in
      case formatError_json jp msg of
        Some s \<Rightarrow> s
      | None \<Rightarrow>
          if includes_str msg ''503'' \<or> includes_str msg ''overload''
             \<or> includes_str msg ''UNAVAILABLE''
            then icon_busy @ '' Server sibuk''
          else if includes_str msg ''429'' \<or> includes_str msg ''RESOURCE_EXHAUSTED''
                  \<or> includes_str msg ''quota''
            then icon_rate @ '' Rate limit''
          else if includes_str msg ''timeout'' \<or> includes_str msg ''DEADLINE_EXCEEDED''
            then icon_timeout @ '' Timeout''
          else if includes_str msg ''API key expired''
            then icon_key @ '' API key expired''
          else if includes_str msg ''401'' \<or> includes_str msg ''API_KEY''
                  \<or> includes_str msg ''authentication''
            then icon_key @ '' API key invalid''
          else if includes_str msg ''404'' \<or> includes_str msg ''not found''
            then icon_unknown_model @ '' Model tidak ada''
          else if includes_str msg ''SAFETY'' \<or> includes_str msg ''blocked''
            then icon_blocked @ '' Diblokir safety''
          else if includes_str msg ''ECONNREFUSED'' \<or> includes_str msg ''network''
            then icon_network @ '' Network error''
          else if includes_str msg ''Empty response'' \<or> includes_str msg ''parse failure''
            then icon_empty @ '' Jawaban kosong''
          else take 30 msg @ (if 30 < length msg then ''...'' else []))"

section \<open>Model Invoker\<close>

text \<open>
  A \<^verbatim>\<open>ModelResult\<close> is built in two shapes only: \<^verbatim>\<open>{success: true, answer, confidence,
  model, raw}\<close> and \<^verbatim>\<open>{success: false, model, error}\<close>. The optional fields of the
  interface are present exactly so; the consumers' \<^verbatim>\<open>r.answer!\<close> and \<^verbatim>\<open>r.confidence!\<close>
  rely on that.
\<close>

datatype ModelResult =
    success: Succeeded (model: string) (answer: string) (confidence: int) (raw: string)
  | Failed (model: string) (error: string)

text \<open>
  The model capability is outside the program. \<open>gen model prompt k\<close> is how the \<open>k\<close>-th
  attempt of one \<^verbatim>\<open>callSingleModel(model, prompt)\<close> goes: an exception out of
  \<^verbatim>\<open>getGenerativeModel\<close> or \<^verbatim>\<open>generateContent\<close>, or a response, given by what
  \<^verbatim>\<open>extractText\<close> reads from it (a string or \<^verbatim>\<open>null\<close>). Every exception is an \<^verbatim>\<open>Error\<close>
  with a string message.
\<close>

datatype api_outcome = Threw js_error | Responded "string option"

type_synonym api = "string \<Rightarrow> string \<Rightarrow> nat \<Rightarrow> api_outcome"

text \<open>The \<^verbatim>\<open>try\<close> block of one attempt: the result it returns, or the error it throws.\<close>

definition attempt_body :: "json_parse \<Rightarrow> api_outcome \<Rightarrow> string \<Rightarrow> js_error + ModelResult" where
  "attempt_body jp outcome m =
     (case outcome of
        Threw e \<Rightarrow> Inl e
      | Responded rawText \<Rightarrow>
          (case rawText of
             None \<Rightarrow> Inl (JsError ''Error'' ''Empty response or parse failure'')
           | Some rawStr \<Rightarrow>
               if rawStr \<noteq> [] \<and> trim rawStr \<noteq> [] then
                 (case parseAnswerWithConfidence jp rawText of
                    (ans, conf) \<Rightarrow>
                      if ans \<noteq> [] then Inr (Succeeded m ans conf rawStr)
                      else Inl (JsError ''Error'' ''Empty response or parse failure''))
               else Inl (JsError ''Error'' ''Empty response or parse failure'')))"

definition isOverload :: "string \<Rightarrow> bool" where
  "isOverload errMsg \<longleftrightarrow>
     includes_str errMsg ''503'' \<or> includes_str errMsg ''429'' \<or> includes_str errMsg ''Overload''"

text \<open>
  The retry loop from attempt \<open>attempt\<close> on. The second component lists the delays, in
  milliseconds, the loop sleeps through, in order.
\<close>

function callSingleModel_from ::
  "json_parse \<Rightarrow> api \<Rightarrow> string \<Rightarrow> string \<Rightarrow> nat \<Rightarrow> nat \<Rightarrow> ModelResult \<times> nat list" where
  "callSingleModel_from jp gen m prompt retries attempt =
     (if attempt \<le> retries then
        (case attempt_body jp (gen m prompt attempt) m of
           Inr result \<Rightarrow> (result, [])
         | Inl err \<Rightarrow>
             if attempt = retries then
               (Failed m (if isOverload (message err) then ''Server Overload (Max Retries)''
                          else formatError jp (ErrObj err)), [])
             else
               (let waitTime = (if isOverload (message err) then 2000 * attempt
                                else 1000 * attempt)
                in case callSingleModel_from jp gen m prompt retries (attempt + 1) of
                     (result, waits) \<Rightarrow> (result, waitTime # waits)))
      else (Failed m ''Unknown error'', []))"
  by pat_completeness auto
termination
  by (relation "measure (\<lambda>(jp, gen, m, prompt, retries, attempt). Suc retries - attempt)") auto

declare callSingleModel_from.simps [simp del]

definition callSingleModel ::
  "json_parse \<Rightarrow> api \<Rightarrow> string \<Rightarrow> string \<Rightarrow> nat \<Rightarrow> ModelResult \<times> nat list" where
  "callSingleModel jp gen m prompt retries = callSingleModel_from jp gen m prompt retries 1"

section \<open>Voting Engine: three workers and a judge\<close>

definition MODELS :: "string list" where
  "MODELS = [''gemini-3-flash-preview'', ''gemini-2.0-flash-001'', ''gemini-2.5-flash-lite'',
             ''gemini-2.5-pro'']"

text \<open>An option of a question: its label and its text, both strings as the interface has them.\<close>

record QuestionOption =
  label :: string
  text_of :: string

record VotingResult =
  finalAnswer :: string
  finalConfidence :: int
  votes :: "(string \<times> nat \<times> int) list option"
  modelAnswers :: "(string \<times> string \<times> int) list option"
  method_of :: string

text \<open>
  \<^verbatim>\<open>Math.round(t / n)\<close> for an integer \<open>t\<close> and \<open>n > 0\<close>: the nearest integer,
  a half rounded up.
\<close>

definition js_round_div :: "int \<Rightarrow> nat \<Rightarrow> int" where
  "js_round_div t n = (2 * t + int n) div (2 * int n)"

text \<open>
  \<^verbatim>\<open>xs.sort(cmp)\<close>: the sort is stable, and \<open>a\<close> stays before \<open>b\<close> unless \<open>cmp a b > 0\<close>.
\<close>

fun insertBy :: "('a \<Rightarrow> 'a \<Rightarrow> int) \<Rightarrow> 'a \<Rightarrow> 'a list \<Rightarrow> 'a list" where
  "insertBy cmp x [] = [x]"
| "insertBy cmp x (y # ys) = (if cmp x y \<le> 0 then x # y # ys else y # insertBy cmp x ys)"

definition sortBy :: "('a \<Rightarrow> 'a \<Rightarrow> int) \<Rightarrow> 'a list \<Rightarrow> 'a list" where
  "sortBy cmp xs = foldr (insertBy cmp) xs []"

text \<open>
  The helper \<^verbatim>\<open>normalize\<close> of \<^verbatim>\<open>callGeminiEnsemble\<close>. The first block maps a single
  letter to a boolean when the question has the two options true and false.
\<close>

definition trueFalseLetter :: "string \<Rightarrow> QuestionOption list \<Rightarrow> string option" where
  "trueFalseLetter a opts =
     (if length opts = 2 then
        (let optTexts = map (\<lambda>opt. trim (toLowerCase (text_of opt))) opts in
         if ''true'' \<in> set optTexts \<or> ''false'' \<in> set optTexts then
           (let trueOpt = find (\<lambda>opt. trim (toLowerCase (text_of opt)) = ''true'') opts;
                falseOpt = find (\<lambda>opt. trim (toLowerCase (text_of opt)) = ''false'') opts
            in if a = ''A'' \<and> (case trueOpt of Some t \<Rightarrow> label t = ''A'' | None \<Rightarrow> False)
                 then Some ''true''
               else if a = ''A'' \<and> (case falseOpt of Some f \<Rightarrow> label f = ''A'' | None \<Rightarrow> False)
                 then Some ''false''
               else if a = ''B'' \<and> (case trueOpt of Some t \<Rightarrow> label t = ''B'' | None \<Rightarrow> False)
                 then Some ''true''
               else if a = ''B'' \<and> (case falseOpt of Some f \<Rightarrow> label f = ''B'' | None \<Rightarrow> False)
                 then Some ''false''
               else None)
         else None)
      else None)"

definition normalize :: "string \<Rightarrow> QuestionOption list \<Rightarrow> string" where
  "normalize ans opts =
     (if ans = [] then []
      else
        (let a = toUpperCase (trim ans) in
         if test_whole (lit_i ''TRUE'') a then ''true''
         else if test_whole (lit_i ''FALSE'') a then ''false''
         else
           (case trueFalseLetter a opts of
              Some b \<Rightarrow> b
            | None \<Rightarrow>
                (let letters = matchAF a in
                 if letters \<noteq> [] then letterSet letters
                 else
                   (case (if opts \<noteq> []
                          then find (\<lambda>opt. text_of opt \<noteq> []
                                         \<and> toLowerCase (trim (text_of opt)) = toLowerCase a) opts
                          else None) of
                      Some exact \<Rightarrow> label exact
                    | None \<Rightarrow> a)))))"

text \<open>
  \<^verbatim>\<open>voteCounts\<close>: a plain object used as a dictionary, here the list of its own entries
  in the order the keys were first inserted.
\<close>

record tally =
  count :: nat
  totalConfidence :: int
  models :: "string list"

fun addVote :: "(string \<times> tally) list \<Rightarrow> string \<Rightarrow> int \<Rightarrow> string \<Rightarrow> (string \<times> tally) list" where
  "addVote [] ans c m = [(ans, \<lparr>count = 1, totalConfidence = c, models = [m]\<rparr>)]"
| "addVote ((k, t) # kts) ans c m =
     (if k = ans
      then (k, \<lparr>count = count t + 1, totalConfidence = totalConfidence t + c,
                models = models t @ [m]\<rparr>) # kts
      else (k, t) # addVote kts ans c m)"

text \<open>
  The members a plain object inherits from \<^verbatim>\<open>Object.prototype\<close>, as the language standard
  with its Annex B lists them. \<^verbatim>\<open>voteCounts[ans]\<close> reads such a member when \<open>ans\<close> names
  one: a function, or the prototype itself, and truthy in either case.
\<close>

definition Object_prototype_members :: "string list" where
  "Object_prototype_members =
     [''constructor'', ''__defineGetter__'', ''__defineSetter__'', ''hasOwnProperty'',
      ''__lookupGetter__'', ''__lookupSetter__'', ''isPrototypeOf'', ''propertyIsEnumerable'',
      ''toString'', ''valueOf'', ''__proto__'', ''toLocaleString'']"

text \<open>
  The body of the \<^verbatim>\<open>forEach\<close> that counts the votes: a worker votes when it succeeded and
  its normalized answer is a non-empty string. For an answer that names an inherited member
  the test \<^verbatim>\<open>!voteCounts[ans]\<close> fails, no entry is made, the two updates write to the
  member, which nothing reads again, and \<^verbatim>\<open>voteCounts[ans].models.push\<close> throws, the member
  having no \<^verbatim>\<open>models\<close>. The exception ends the \<^verbatim>\<open>forEach\<close> and leaves
  \<^verbatim>\<open>callGeminiEnsemble\<close>.
\<close>

definition push_of_undefined :: js_error where
  "push_of_undefined =
     JsError ''TypeError''
       (''Cannot read properties of undefined (reading '' @ [CHR 0x27] @ ''push'' @ [CHR 0x27] @ '')'')"

definition countVote ::
  "js_error + (string \<times> tally) list \<Rightarrow> ModelResult \<times> string option
     \<Rightarrow> js_error + (string \<times> tally) list" where
  "countVote acc rn =
     (case acc of
        Inl e \<Rightarrow> Inl e
      | Inr vc \<Rightarrow>
          (case rn of
             (r, Some ans) \<Rightarrow>
               if success r \<and> ans \<noteq> [] then
                 (if ans \<in> set Object_prototype_members then Inl push_of_undefined
                  else Inr (addVote vc ans (confidence r) (model r)))
               else Inr vc
           | (r, None) \<Rightarrow> Inr vc))"

definition voteCounts_of ::
  "ModelResult list \<Rightarrow> string option list \<Rightarrow> js_error + (string \<times> tally) list" where
  "voteCounts_of results normalizedAnswers =
     foldl countVote (Inr []) (zip results normalizedAnswers)"

text \<open>
  \<^verbatim>\<open>Object.entries\<close> lists the keys that are array indices first, in ascending numeric
  order, then the other keys in insertion order.
\<close>

definition isArrayIndex :: "string \<Rightarrow> bool" where
  "isArrayIndex k \<longleftrightarrow>
     k \<noteq> [] \<and> list_all (isDigit 10) k \<and> (k = ''0'' \<or> \<not> prefix ''0'' k)
     \<and> digits_value 10 k < 4294967295"

definition Object_entries :: "(string \<times> 'a) list \<Rightarrow> (string \<times> 'a) list" where
  "Object_entries kvs =
     sort_key (\<lambda>kv. digits_value 10 (fst kv)) (filter (\<lambda>kv. isArrayIndex (fst kv)) kvs)
     @ filter (\<lambda>kv. \<not> isArrayIndex (fst kv)) kvs"

record vote =
  answer_v :: string
  count_v :: nat
  avgConfidence :: int
  models_v :: "string list"

definition voteCmp :: "vote \<Rightarrow> vote \<Rightarrow> int" where
  "voteCmp a b =
     (if count_v b \<noteq> count_v a then int (count_v b) - int (count_v a)
      else avgConfidence b - avgConfidence a)"

definition sortedVotes_of :: "(string \<times> tally) list \<Rightarrow> vote list" where
  "sortedVotes_of voteCounts =
     sortBy voteCmp
       (map (\<lambda>(ans, d). \<lparr>answer_v = ans, count_v = count d,
                           avgConfidence = js_round_div (totalConfidence d) (count d),
                           models_v = models d\<rparr>)
            (Object_entries voteCounts))"

text \<open>
  \<^verbatim>\<open>callGeminiEnsemble\<close>. The result is the \<^verbatim>\<open>VotingResult\<close> returned or the \<^verbatim>\<open>Error\<close>
  thrown, together with the calls of \<^verbatim>\<open>callSingleModel\<close> made, as (model, prompt) in call
  order. Every call uses the default of three attempts.
\<close>

definition callGeminiEnsemble ::
  "json_parse \<Rightarrow> api \<Rightarrow> string \<Rightarrow> QuestionOption list
     \<Rightarrow> (js_error + VotingResult) \<times> (string \<times> string) list" where
  "callGeminiEnsemble jp gen prompt options =
     (let workers = [MODELS ! 0, MODELS ! 1, MODELS ! 2];
          results = map (\<lambda>m. fst (callSingleModel jp gen m prompt 3)) workers;
          calls = map (\<lambda>m. (m, prompt)) workers;
          normalizedAnswers =
            map (\<lambda>r. if success r then Some (normalize (answer r) options) else None) results
      in case voteCounts_of results normalizedAnswers of
           Inl e \<Rightarrow> (Inl e, calls)
         | Inr voteCounts \<Rightarrow>
             (case (case sortedVotes_of voteCounts of
                      [] \<Rightarrow> None
                    | topVote # _ \<Rightarrow> if 2 \<le> count_v topVote then Some topVote else None) of
                Some topVote \<Rightarrow>
                  (Inr \<lparr>finalAnswer = answer_v topVote, finalConfidence = avgConfidence topVote,
                        votes = None, modelAnswers = None,
                        method_of = (if count_v topVote = 3 then ''unanimous'' else ''majority'')\<rparr>,
                   calls)
              | None \<Rightarrow>
                  (let judgeResult = fst (callSingleModel jp gen (MODELS ! 3) prompt 3);
                       calls' = calls @ [(MODELS ! 3, prompt)]
                   in if success judgeResult then
                        (Inr \<lparr>finalAnswer = answer judgeResult,
                              finalConfidence = confidence judgeResult,
                              votes = None, modelAnswers = None, method_of = ''judge''\<rparr>,
                         calls')
                      else
                        (case sortBy (\<lambda>a b. confidence b - confidence a)
                                (filter success results) of
                           best # _ \<Rightarrow>
                             (Inr \<lparr>finalAnswer = answer best, finalConfidence = confidence best,
                                   votes = None, modelAnswers = None,
                                   method_of = ''fallback_worker''\<rparr>,
                              calls')
                         | [] \<Rightarrow>
                             (Inl (JsError ''Error'' ''All models failed including Judge''),
                              calls')))))"

section \<open>Voting Engine: confidence-weighted variant\<close>

text \<open>
  \<^verbatim>\<open>s.split(/[\s,]+/)\<close>: the pieces of \<open>s\<close> between the maximal runs of white space and
  commas, the empty pieces at either end included. \<open>cur\<close> holds the piece being read, in
  reverse.
\<close>

function splitOn :: "(char \<Rightarrow> bool) \<Rightarrow> string \<Rightarrow> string \<Rightarrow> string list" where
  "splitOn sep cur [] = [rev cur]"
| "splitOn sep cur (c # cs) =
     (if sep c then rev cur # splitOn sep [] (dropWhile sep cs)
      else splitOn sep (c # cur) cs)"
  by pat_completeness auto
termination
  by (relation "measure (\<lambda>(sep, cur, s). length s)")
     (auto simp add: le_imp_less_Suc length_dropWhile_le)

definition isUpperLetter :: "string \<Rightarrow> bool" where
  "isUpperLetter s \<longleftrightarrow> (case s of [c] \<Rightarrow> c \<in> set upper_letters | _ \<Rightarrow> False)"

text \<open>\<^verbatim>\<open>normalizeAnswer\<close>, on \<^verbatim>\<open>string | undefined\<close>. Strings sort by code unit.\<close>

definition normalizeAnswer :: "string option \<Rightarrow> string list" where
  "normalizeAnswer ans =
     (case ans of
        None \<Rightarrow> []
      | Some a \<Rightarrow>
          if a = [] then []
          else
            (let upperAnswer = trim (toUpperCase a) in
             if upperAnswer = ''TRUE'' \<or> upperAnswer = ''FALSE'' then [toLowerCase upperAnswer]
             else
               (let labels = filter isUpperLetter
                               (map trim (splitOn (\<lambda>c. isSpace c \<or> c = CHR '','') [] upperAnswer))
                in sort (remdups labels))))"

definition answer_opt :: "ModelResult \<Rightarrow> string option" where
  "answer_opt r = (case r of Succeeded m a c rw \<Rightarrow> Some a | Failed m e \<Rightarrow> None)"

text \<open>
  Step 1 of \<^verbatim>\<open>_confidenceWeightedVote\<close>: a result with four or more labels has its
  confidence lowered to at most 40 and is marked unreliable. The mark is the second
  component.
\<close>

definition penalize :: "ModelResult \<Rightarrow> ModelResult \<times> bool" where
  "penalize r =
     (if 4 \<le> length (normalizeAnswer (answer_opt r))
      then (case r of
              Succeeded m a c rw \<Rightarrow> (Succeeded m a (min c 40) rw, True)
            | Failed m e \<Rightarrow> (Failed m e, True))
      else (r, False))"

text \<open>
  Step 2: the tally of exact answers, keyed by the upper-cased, trimmed answer. Such a key
  has no lower-case ASCII letter, so it names no inherited member of the object.
\<close>

definition answerCounts_of :: "(ModelResult \<times> bool) list \<Rightarrow> (string \<times> tally) list" where
  "answerCounts_of reliableResults =
     foldl (\<lambda>ac ru. addVote ac (trim (toUpperCase (answer (fst ru))))
                        (confidence (fst ru)) (model (fst ru)))
           [] reliableResults"

definition unreliable_mark :: string where
  "unreliable_mark = '' '' @ [CHR 0xE2, CHR 0x9A, CHR 0xA0, CHR 0xEF, CHR 0xB8, CHR 0x8F]"

text \<open>Step 3: the answer, its confidence and the method, or the error thrown.\<close>

definition decide ::
  "(ModelResult \<times> bool) list \<Rightarrow> vote list \<Rightarrow> js_error + string \<times> int \<times> string" where
  "decide reliableResults sortedAnswers =
     (case (case sortedAnswers of
              [] \<Rightarrow> None
            | topAnswer # _ \<Rightarrow> if 2 \<le> count_v topAnswer then Some topAnswer else None) of
        Some topAnswer \<Rightarrow> Inr (answer_v topAnswer, avgConfidence topAnswer, ''consensus'')
      | None \<Rightarrow>
          (case find (\<lambda>ru. model (fst ru) = MODELS ! 0 \<and> \<not> snd ru) reliableResults of
             Some primaryResult \<Rightarrow>
               Inr (answer (fst primaryResult), confidence (fst primaryResult), ''primary'')
           | None \<Rightarrow>
               (case find (\<lambda>ru. model (fst ru) = MODELS ! 1 \<and> \<not> snd ru) reliableResults of
                  Some secondaryResult \<Rightarrow>
                    Inr (answer (fst secondaryResult), confidence (fst secondaryResult),
                         ''secondary'')
                | None \<Rightarrow>
                    (case reliableResults of
                       [] \<Rightarrow>
                         Inl (JsError ''TypeError''
                                ''Reduce of empty array with no initial value'')
                     | first # others \<Rightarrow>
                         (let best = foldl (\<lambda>a b. if confidence (fst b) < confidence (fst a)
                                                    then a else b) first others
                          in Inr (answer (fst best), confidence (fst best), ''fallback''))))))"

definition confidenceWeightedVote :: "ModelResult list \<Rightarrow> js_error + VotingResult" where
  "confidenceWeightedVote modelResults =
     (let successfulResults = filter success modelResults in
      if length successfulResults = 0 then Inl (JsError ''Error'' ''All models failed in ensemble'')
      else if length successfulResults = 1 then
        (case successfulResults of
           r # _ \<Rightarrow>
             Inr \<lparr>finalAnswer = answer r, finalConfidence = confidence r,
                  votes = Some [(answer r, 1, confidence r)],
                  modelAnswers = Some [(model r, answer r, confidence r)],
                  method_of = ''single''\<rparr>
         | [] \<Rightarrow> Inl (JsError ''Error'' ''All models failed in ensemble''))
      else
        (let reliableResults = map penalize successfulResults;
             sortedAnswers = sortedVotes_of (answerCounts_of reliableResults)
         in case decide reliableResults sortedAnswers of
              Inl e \<Rightarrow> Inl e
            | Inr (ans, conf, how) \<Rightarrow>
                Inr \<lparr>finalAnswer = ans, finalConfidence = conf,
                     votes = Some (map (\<lambda>a. (answer_v a, count_v a, avgConfidence a))
                                       sortedAnswers),
                     modelAnswers =
                       Some (map (\<lambda>ru. (model (fst ru) @ (if snd ru then unreliable_mark else []),
                                         answer (fst ru), confidence (fst ru)))
                                 reliableResults),
                     method_of = how\<rparr>))"

section \<open>Prompt builder\<close>

record QuestionInput =
  question :: string
  options_of :: "QuestionOption list option"
  type_of :: "string option"
  number_of :: "int option"

datatype raw_prompt = PromptString string | PromptObject QuestionInput

definition plainPrompt :: string where
  \<open>plainPrompt =
     ''You are a MikroTik certification exam expert operating in "DEEP THINKING MODE".\<newline>''
     @ ''\<newline>''
     @ ''PROTOCOL:\<newline>''
     @ ''1.  **Analyze**: Read the question and every single option carefully.\<newline>''
     @ ''2.  **Evaluate**: For EACH option, write a detailed explanation why it is correct or incorrect.\<newline>''
     @ ''3.  **Reasoning**: You MUST provide thorough reasoning (at least 5-10 sentences). Do NOT be lazy.\<newline>''
     @ ''4.  **Conclusion**: Final Answer must be determined only after analysis.\<newline>''
     @ ''\<newline>''
     @ ''FORMAT:\<newline>''
     @ ''Reasoning:\<newline>''
     @ ''[Your detailed step-by-step analysis here...]\<newline>''
     @ ''\<newline>''
     @ ''JSON:\<newline>''
     @ ''{"answer": "A", "confidence": 95}\<newline>''\<close>

definition objectIntro :: string where
  \<open>objectIntro =
     ''You are a MikroTik certification exam expert.\<newline>\<newline>''
     @ ''Goal: Provide the most accurate answer based on deep technical reasoning.\<newline>\<newline>''
     @ ''INSTRUCTIONS:\<newline>''
     @ ''1. Analyze the Question: Identify key constraints (e.g., "invalid", "not", "public IP").\<newline>''
     @ ''2. Analyze Options: Evaluate each option'' @ [CHR 0x27] @ ''s technical validity.\<newline>''
     @ ''3. Chain of Thought: Explain your step-by-step reasoning.\<newline>''
     @ ''4. Final Output: Return the answer in strictly valid JSON.\<newline>\<newline>''\<close>

text \<open>The \<^verbatim>\<open>forEach\<close> over the options: one line \<^verbatim>\<open>label. text\<close> for each.\<close>

definition optionLines :: "QuestionOption list \<Rightarrow> string" where
  "optionLines opts = concat (map (\<lambda>opt. label opt @ ''. '' @ text_of opt @ ''\<newline>'') opts)"

definition buildPrompt :: "raw_prompt \<Rightarrow> string" where
  \<open>buildPrompt input =
     (case input of
        PromptString s \<Rightarrow> plainPrompt
      | PromptObject q \<Rightarrow>
          objectIntro
          @ ''Question: '' @ question q @ ''\<newline>''
          @ (case options_of q of
               None \<Rightarrow> []
             | Some opts \<Rightarrow>
                 if 0 < length opts then
                   ''Options:\<newline>'' @ optionLines opts
                   @ (if type_of q = Some ''checkbox''
                        then ''\<newline>Type: CHECKBOX (select ALL correct answers)\<newline>''
                      else if type_of q = Some ''select''
                        then ''\<newline>Type: TRUE/FALSE\<newline>''
                      else ''\<newline>Type: SINGLE CHOICE\<newline>'')
                 else [])
          @ ''\<newline>Output Format:\<newline>''
          @ ''First, write your "Reasoning: ..." block.\<newline>''
          @ ''Then, write "JSON: {"answer": "...", "confidence": ...}" on a new line.\<newline>'')\<close>

section \<open>Request handling: cache, in-flight map and queue\<close>

definition ENSEMBLE_MODE :: bool where
  "ENSEMBLE_MODE = True"

definition TTL_MS :: int where
  "TTL_MS = 120 * 1000"

text \<open>\<^verbatim>\<open>callGeminiWithFailover\<close>: the models in order, the first success wins.\<close>

fun failover_from ::
  "json_parse \<Rightarrow> api \<Rightarrow> string \<Rightarrow> string list \<Rightarrow> js_error + string \<times> string \<times> int" where
  "failover_from jp gen prompt [] = Inl (JsError ''Error'' ''All models failed'')"
| "failover_from jp gen prompt (m # rest) =
     (let result = fst (callSingleModel jp gen m prompt 3) in
      if success result then Inr (answer result, m, confidence result)
      else failover_from jp gen prompt rest)"

definition callGeminiWithFailover ::
  "json_parse \<Rightarrow> api \<Rightarrow> string \<Rightarrow> js_error + string \<times> string \<times> int" where
  "callGeminiWithFailover jp gen prompt = failover_from jp gen prompt MODELS"

text \<open>
  The \<^verbatim>\<open>try\<close> block of the queue processor up to the reconciliation: the final answer and
  its confidence, or the error thrown.
\<close>

definition reconcile :: "json_parse \<Rightarrow> api \<Rightarrow> raw_prompt \<Rightarrow> js_error + string \<times> int" where
  "reconcile jp gen rp =
     (let prompt = buildPrompt rp;
          options = (case rp of
                       PromptString s \<Rightarrow> []
                     | PromptObject q \<Rightarrow> (case options_of q of None \<Rightarrow> [] | Some opts \<Rightarrow> opts))
      in if ENSEMBLE_MODE then
           (case fst (callGeminiEnsemble jp gen prompt options) of
              Inl e \<Rightarrow> Inl e
            | Inr voting \<Rightarrow> Inr (finalAnswer voting, finalConfidence voting))
         else
           (case callGeminiWithFailover jp gen prompt of
              Inl e \<Rightarrow> Inl e
            | Inr (result, m, conf) \<Rightarrow> Inr (result, conf)))"

text \<open>
  The state of the server. The first five fields are the module's variables
  \<^verbatim>\<open>recentAnswers\<close>, \<^verbatim>\<open>inflight\<close>, \<^verbatim>\<open>requestQueue\<close>, \<^verbatim>\<open>isProcessing\<close> and
  \<^verbatim>\<open>requestCounter\<close>. A promise is known by its number; a queue entry holds, as
  \<open>promise\<close>, the promise its \<^verbatim>\<open>resolve\<close> and \<^verbatim>\<open>reject\<close> settle. The other fields are what
  the suspended computations hold: \<open>running\<close> is the entry the queue processor took, while
  it awaits the reconciliation; \<open>awaiting\<close> lists the handlers suspended at an \<^verbatim>\<open>await\<close> of a
  promise, each with its caller, the promise, and whether it joined an existing promise;
  \<open>promises\<close> counts the promises created.

  The scheduler is cooperative: a step below is one stretch of code between two
  \<^verbatim>\<open>await\<close>s, and runs alone. The values \<^verbatim>\<open>Date.now()\<close> returns are parameters of the steps.
\<close>

record QueueEntry =
  key :: string
  rawPrompt :: raw_prompt
  promise :: nat
  startTime :: int

record Server =
  recentAnswers :: "string \<rightharpoonup> string \<times> int"
  inflight :: "string \<rightharpoonup> nat"
  requestQueue :: "QueueEntry list"
  isProcessing :: bool
  requestCounter :: nat
  running :: "QueueEntry option"
  awaiting :: "(nat \<times> nat \<times> bool) list"
  promises :: nat

definition initial :: Server where
  "initial = \<lparr>recentAnswers = Map.empty, inflight = Map.empty, requestQueue = [],
              isProcessing = False, requestCounter = 0, running = None, awaiting = [],
              promises = 0\<rparr>"

definition vacuum :: "int \<Rightarrow> (string \<rightharpoonup> string \<times> int) \<Rightarrow> (string \<rightharpoonup> string \<times> int)" where
  "vacuum now cache =
     (\<lambda>k. case cache k of
             None \<Rightarrow> None
           | Some (a, ts) \<Rightarrow> if TTL_MS < now - ts then None else Some (a, ts))"

text \<open>
  The head of the \<^verbatim>\<open>while\<close> loop of \<^verbatim>\<open>processQueue\<close>: the next entry is taken and its
  reconciliation started, or the loop ends.
\<close>

definition nextEntry :: "Server \<Rightarrow> Server" where
  "nextEntry s =
     (case requestQueue s of
        [] \<Rightarrow> s\<lparr>isProcessing := False, running := None\<rparr>
      | e # rest \<Rightarrow>
          s\<lparr>requestQueue := rest, requestCounter := requestCounter s + 1, running := Some e\<rparr>)"

text \<open>A call of \<^verbatim>\<open>processQueue\<close>, up to its first \<^verbatim>\<open>await\<close>.\<close>

definition processQueue :: "Server \<Rightarrow> Server" where
  "processQueue s =
     (if isProcessing s then s
      else if requestQueue s = [] then s
      else nextEntry (s\<lparr>isProcessing := True\<rparr>))"

text \<open>
  The responses of the handler for \<^verbatim>\<open>POST /ask\<close>: the cached answer; the coalesced answer
  with its duration; the fresh answer with its duration and confidence; the error response
  with status 500.
\<close>

datatype response =
    Cached string
  | Coalesced string int
  | Fresh string int int
  | ServerError string

text \<open>
  The handler from \<^verbatim>\<open>vacuum()\<close> on, for a request with cache key \<open>k\<close>: the response it
  returns at once, or \<open>None\<close> when it suspends at the \<^verbatim>\<open>await\<close> of a promise. \<open>now1\<close>,
  \<open>now2\<close> and \<open>now3\<close> are the clock readings of the sweep, of the cache test and of
  \<^verbatim>\<open>startTime\<close>.
\<close>

definition handler_admit ::
  "nat \<Rightarrow> string \<Rightarrow> raw_prompt \<Rightarrow> int \<Rightarrow> int \<Rightarrow> int \<Rightarrow> Server \<Rightarrow> response option \<times> Server" where
  "handler_admit caller k rp now1 now2 now3 s =
     (let s1 = s\<lparr>recentAnswers := vacuum now1 (recentAnswers s)\<rparr> in
      case (case recentAnswers s1 k of
              None \<Rightarrow> None
            | Some (a, ts) \<Rightarrow> if now2 - ts \<le> TTL_MS then Some a else None) of
        Some a \<Rightarrow> (Some (Cached a), s1)
      | None \<Rightarrow>
          (case inflight s1 k of
             Some p \<Rightarrow> (None, s1\<lparr>awaiting := awaiting s1 @ [(caller, p, True)]\<rparr>)
           | None \<Rightarrow>
               (let p = promises s1;
                    s2 = s1\<lparr>promises := p + 1,
                            requestQueue := requestQueue s1
                              @ [\<lparr>key = k, rawPrompt = rp, promise = p, startTime = now3\<rparr>]\<rparr>;
                    s3 = s2\<lparr>inflight := (inflight s2)(k \<mapsto> p)\<rparr>;
                    s4 = processQueue s3
                in (None, s4\<lparr>awaiting := awaiting s4 @ [(caller, p, False)]\<rparr>))))"

text \<open>What a handler answers when the promise it awaits settles.\<close>

definition respond :: "js_error + string \<times> int \<times> int \<Rightarrow> bool \<Rightarrow> response" where
  "respond outcome coalesced =
     (case outcome of
        Inr (a, duration, conf) \<Rightarrow> if coalesced then Coalesced a duration else Fresh a duration conf
      | Inl e \<Rightarrow> ServerError (if message e \<noteq> [] then message e else ''Internal Server Error''))"

text \<open>
  The queue processor from the end of a reconciliation to its next \<^verbatim>\<open>await\<close>, or to its
  end: the cache is written on success, the promise settled, the key removed from the
  in-flight map, and the loop goes on. \<open>gen\<close> is how the models behaved during this
  reconciliation; \<open>now_d\<close> and \<open>now_ts\<close> are the clock readings for the duration and for the
  cache entry. The handlers awaiting the promise resume with the same outcome; their
  responses are the first component. The outcome is the value the promise is resolved
  with (answer, duration, confidence) or the error it is rejected with.
\<close>

definition settle_outcome ::
  "json_parse \<Rightarrow> api \<Rightarrow> int \<Rightarrow> QueueEntry \<Rightarrow> js_error + string \<times> int \<times> int" where
  "settle_outcome jp gen now_d e =
     (case reconcile jp gen (rawPrompt e) of
        Inl err \<Rightarrow> Inl err
      | Inr (a, conf) \<Rightarrow> Inr (a, now_d - startTime e, conf))"

definition worker_settle ::
  "json_parse \<Rightarrow> api \<Rightarrow> int \<Rightarrow> int \<Rightarrow> Server \<Rightarrow> (nat \<times> response) list \<times> Server" where
  "worker_settle jp gen now_d now_ts s =
     (case running s of
        None \<Rightarrow> ([], s)
      | Some e \<Rightarrow>
          (let outcome = settle_outcome jp gen now_d e;
               s1 = (case outcome of
                       Inl err \<Rightarrow> s
                     | Inr (a, duration, conf) \<Rightarrow>
                         s\<lparr>recentAnswers := (recentAnswers s)(key e \<mapsto> (a, now_ts))\<rparr>);
               s2 = s1\<lparr>inflight := (inflight s1)(key e := None)\<rparr>;
               s3 = s2\<lparr>awaiting := filter (\<lambda>w. fst (snd w) \<noteq> promise e) (awaiting s2)\<rparr>
           in (map (\<lambda>w. (fst w, respond outcome (snd (snd w))))
                   (filter (\<lambda>w. fst (snd w) = promise e) (awaiting s)),
               nextEntry s3)))"

text \<open>
  The states the server reaches, with the last clock reading: the clock never runs
  backwards.
\<close>

inductive reach :: "json_parse \<Rightarrow> int \<Rightarrow> Server \<Rightarrow> bool" for jp :: json_parse where
  start: "reach jp t initial"
| admit: "reach jp t s \<Longrightarrow> t \<le> now1 \<Longrightarrow> now1 \<le> now2 \<Longrightarrow> now2 \<le> now3 \<Longrightarrow>
          reach jp now3 (snd (handler_admit caller k rp now1 now2 now3 s))"
| settle: "reach jp t s \<Longrightarrow> t \<le> now_d \<Longrightarrow> now_d \<le> now_ts \<Longrightarrow>
           reach jp now_ts (snd (worker_settle jp gen now_d now_ts s))"

section \<open>Notions used in the statements about the server\<close>

text \<open>
  The queue entries not yet settled: the one the queue processor is working on, then the
  queue.
\<close>

definition pending :: "Server \<Rightarrow> QueueEntry list" where
  "pending s = (case running s of None \<Rightarrow> [] | Some e \<Rightarrow> [e]) @ requestQueue s"

text \<open>
  What holds of every state the server reaches, \<open>t\<close> being the last clock reading: the
  unsettled entries have distinct keys and distinct promises; the in-flight map holds
  exactly their keys, each with the promise of its entry; the processing flag is up exactly
  while an entry is being worked on, and the queue is empty otherwise; a cache entry under
  a key in flight has expired; every suspended handler awaits the promise of an unsettled
  entry.
\<close>

definition server_inv :: "int \<Rightarrow> Server \<Rightarrow> bool" where
  "server_inv t s \<longleftrightarrow>
     distinct (map key (pending s)) \<and>
     distinct (map promise (pending s)) \<and>
     (\<forall>k. inflight s k = map_of (map (\<lambda>e. (key e, promise e)) (pending s)) k) \<and>
     (\<forall>e \<in> set (pending s). promise e < promises s) \<and>
     (isProcessing s \<longleftrightarrow> running s \<noteq> None) \<and>
     (running s = None \<longrightarrow> requestQueue s = []) \<and>
     (\<forall>k a ts. inflight s k \<noteq> None \<and> recentAnswers s k = Some (a, ts) \<longrightarrow> TTL_MS < t - ts) \<and>
     (\<forall>w \<in> set (awaiting s). fst (snd w) \<in> promise ` set (pending s))"

text \<open>
  A request for key \<open>k\<close> misses the cache: there is no entry, or the entry is older than
  the TTL at the sweep or at the cache test.
\<close>

definition missed :: "string \<Rightarrow> int \<Rightarrow> int \<Rightarrow> Server \<Rightarrow> bool" where
  "missed k now1 now2 s \<longleftrightarrow>
     (case recentAnswers s k of
        None \<Rightarrow> True
      | Some (a, ts) \<Rightarrow> TTL_MS < now1 - ts \<or> TTL_MS < now2 - ts)"

text \<open>
  A burst of requests for one key, each with its caller and its three clock readings,
  admitted one after another; the readings of a burst are timely when the clock, last read
  as \<open>t\<close>, never runs backwards through them.
\<close>

fun admit_burst :: "(nat \<times> int \<times> int \<times> int) list \<Rightarrow> string \<Rightarrow> raw_prompt \<Rightarrow> Server \<Rightarrow> Server" where
  "admit_burst [] k rp s = s"
| "admit_burst ((c, now1, now2, now3) # rest) k rp s =
     admit_burst rest k rp (snd (handler_admit c k rp now1 now2 now3 s))"



section \<open>Notions used in the statements about the Voting Engine\<close>

text \<open>
  The workers that support a normalized answer: those that succeeded and whose answer
  normalizes to it. The three worker results of one round, and the answer each would vote.
\<close>

definition supporters :: "QuestionOption list \<Rightarrow> string \<Rightarrow> ModelResult list \<Rightarrow> ModelResult list" where
  "supporters options ans results =
     filter (\<lambda>r. success r \<and> normalize (answer r) options = ans) results"

text \<open>No vote of the round is cast under the name of an inherited member.\<close>

definition plain_votes :: "QuestionOption list \<Rightarrow> ModelResult list \<Rightarrow> bool" where
  "plain_votes options results \<longleftrightarrow>
     (\<forall>r\<in>set results. success r \<longrightarrow>
        normalize (answer r) options \<notin> set Object_prototype_members)"

definition workerResults :: "json_parse \<Rightarrow> api \<Rightarrow> string \<Rightarrow> ModelResult list" where
  "workerResults jp gen prompt =
     map (\<lambda>m. fst (callSingleModel jp gen m prompt 3)) [MODELS ! 0, MODELS ! 1, MODELS ! 2]"

definition normalized :: "QuestionOption list \<Rightarrow> ModelResult \<Rightarrow> string option" where
  "normalized options r = (if success r then Some (normalize (answer r) options) else None)"

definition judgeResult :: "json_parse \<Rightarrow> api \<Rightarrow> string \<Rightarrow> ModelResult" where
  "judgeResult jp gen prompt = fst (callSingleModel jp gen (MODELS ! 3) prompt 3)"

definition workerCalls :: "string \<Rightarrow> (string \<times> string) list" where
  "workerCalls prompt = map (\<lambda>m. (m, prompt)) [MODELS ! 0, MODELS ! 1, MODELS ! 2]"

text \<open>
  For the confidence-weighted variant: the confidence a result is tallied with when it is
  capped at 40 for proposing four or more labels, and the key it is tallied under.
\<close>

definition cappedConfidence :: "ModelResult \<Rightarrow> int" where
  "cappedConfidence r =
     (if 4 \<le> length (normalizeAnswer (answer_opt r)) then min (confidence r) 40
      else confidence r)"

definition exactKey :: "ModelResult \<Rightarrow> string" where
  "exactKey r = trim (toUpperCase (answer r))"

text \<open>The entry of \<^verbatim>\<open>sortedVotes\<close> made from an entry of \<^verbatim>\<open>voteCounts\<close>.\<close>

definition toVote :: "string \<times> tally \<Rightarrow> vote" where
  "toVote = (\<lambda>(ans, d). \<lparr>answer_v = ans, count_v = count d,
                           avgConfidence = js_round_div (totalConfidence d) (count d),
                           models_v = models d\<rparr>)"

section \<open>Inputs for concrete runs\<close>

text \<open>
  A model that is overloaded on the first attempt, answers nothing on the second and is
  unreachable on the third, with the errors the three attempts end in.
\<close>

definition flaky_api :: api where
  "flaky_api m prompt k =
     (if k = 1 then Threw (JsError ''Error'' ''[503 Service Unavailable] The model is overloaded'')
      else if k = 2 then Responded None
      else Threw (JsError ''TypeError'' ''fetch failed: network unreachable''))"

definition flaky_errors :: "nat \<Rightarrow> js_error" where
  "flaky_errors k =
     (if k = 1 then JsError ''Error'' ''[503 Service Unavailable] The model is overloaded''
      else if k = 2 then JsError ''Error'' ''Empty response or parse failure''
      else JsError ''TypeError'' ''fetch failed: network unreachable'')"

text \<open>A model whose every response is empty, and the error each attempt ends in.\<close>

definition silent_api :: api where
  "silent_api m prompt k = Responded None"

definition silent_errors :: "nat \<Rightarrow> js_error" where
  "silent_errors k = JsError ''Error'' ''Empty response or parse failure''"

text \<open>A model that reports at every attempt, in words only, that it is overloaded.\<close>

definition overloaded_api :: api where
  "overloaded_api m prompt k = Threw (JsError ''Error'' ''The model is overloaded'')"

text \<open>Workers that answer at once: each model replies with the JSON text \<open>reply m\<close>.\<close>

definition replying :: "(string \<Rightarrow> string) \<Rightarrow> api" where
  "replying reply m prompt k = Responded (Some (reply m))"

definition reply_json :: "string \<Rightarrow> string \<Rightarrow> string" where
  \<open>reply_json ans conf = ''{"answer":"'' @ ans @ ''","confidence":'' @ conf @ ''}''\<close>

text \<open>The workers of the majority example: \<open>A\<close> at 90, \<open>A\<close> at 80, \<open>B\<close> at 70.\<close>

definition majority_replies :: "string \<Rightarrow> string" where
  "majority_replies m =
     (if m = MODELS ! 0 then reply_json ''A'' ''90''
      else if m = MODELS ! 1 then reply_json ''A'' ''80''
      else reply_json ''B'' ''70'')"







text \<open>
  Results for the confidence-weighted variant: five letters at 95 from the first model,
  \<open>B\<close> at 30 from the second, a failure of the third; and the first of them alone.
\<close>

definition confused_results :: "ModelResult list" where
  "confused_results =
     [Succeeded (MODELS ! 0) ''A, B, C, D, E'' 95 ''A, B, C, D, E'',
      Succeeded (MODELS ! 1) ''B'' 30 ''B'',
      Failed (MODELS ! 2) ''Unknown error'']"

definition lone_confused_result :: "ModelResult list" where
  "lone_confused_result =
     [Succeeded (MODELS ! 0) ''A, B, C, D, E'' 95 ''A, B, C, D, E'',
      Failed (MODELS ! 1) ''Unknown error'']"

text \<open>
  A run of the server: a first request for the key \<open>K\<close> at time 0, which the workers settle
  at time 10 on the answer \<open>A\<close>; then a second request for \<open>K\<close>, swept at time 120010 and
  tested against the cache at time 120011, one millisecond later.
\<close>

definition settled_state :: Server where
  "settled_state =
     snd (worker_settle JSON_parse (replying majority_replies) 10 10
            (snd (handler_admit 1 ''K'' (PromptString ''Q'') 0 0 0 initial)))"

definition tick_state :: Server where
  "tick_state = snd (handler_admit 2 ''K'' (PromptString ''Q'') 120010 120011 120011 settled_state)"

text \<open>A run in which every model throws a network error at every attempt.\<close>

definition dead_api :: api where
  "dead_api m prompt k = Threw (JsError ''TypeError'' ''fetch failed: network unreachable'')"

definition waiting_state :: Server where
  "waiting_state =
     admit_burst [(1, 0, 0, 0), (2, 1, 1, 1), (3, 2, 2, 2)] ''K'' (PromptString ''Q'') initial"

section \<open>Properties of the Answer Parser\<close>

lemma join_not_empty: "x \<noteq> [] \<Longrightarrow> join sep (x # xs) \<noteq> []"
  by (cases xs) simp_all

lemma letterSet_not_empty:
  assumes "letters \<noteq> []"
  shows "letterSet letters \<noteq> []"
proof -
  from assms have "set (sort (remdups letters)) \<noteq> {}" by simp
  then obtain c cs where "sort (remdups letters) = c # cs"
    by (cases "sort (remdups letters)") auto
  then show ?thesis
    by (simp add: letterSet_def join_not_empty)
qed

lemma no_boolean_in_nothing: "\<not> test_whole true_false_re []"
  by code_simp

lemma readAnswer_range:
  assumes "readAnswer parsed = Some (a, c)"
  shows "0 \<le> c \<and> c \<le> 100"
  using assms
  by (auto simp add: readAnswer_def split: option.splits prod.splits if_splits)

text \<open>A value that is not \<^verbatim>\<open>null\<close> and has neither field reads as the empty answer at 50.\<close>

lemma parseInt_undefined: "parseInt ''undefined'' = None"
  by code_simp

lemma readAnswer_no_fields:
  assumes "getProp v ''answer'' = Some None" and "getProp v ''confidence'' = Some None"
  shows "readAnswer v = Some ([], 50)"
  using assms by (simp add: readAnswer_def String_of_def parseInt_undefined toUpperCase_def)

lemma json_reading_range:
  assumes "json_reading jp text = Some (a, c)"
  shows "0 \<le> c \<and> c \<le> 100"
  using assms readAnswer_range
  by (auto simp add: json_reading_def parse_whole_json_def parse_embedded_json_def
           split: option.splits)

text \<open>
  The four pattern steps in one: a step whose guard holds returns a non-empty answer with
  the confidence of its rank, and when no guard holds nothing is returned before the last
  line.
\<close>

lemma pattern_steps:
  "(case parse_true_false text of Some r \<Rightarrow> r | None \<Rightarrow>
    (case parse_letter_list text of Some r \<Rightarrow> r | None \<Rightarrow>
    (case parse_labelled text of Some r \<Rightarrow> r | None \<Rightarrow>
    (case parse_short text of Some r \<Rightarrow> r | None \<Rightarrow> ([], 0))))) =
   (if spells_boolean text then (toLowerCase text, 85)
    else if lists_letters text then (letterSet (matchAF (toUpperCase text)), 70)
    else if labels_letters text
      then (letterSet (matchAF (toUpperCase
              (the (search_group label_pre_re label_group_re label_post_re text)))), 65)
    else if few_letters text then (letterSet (matchAF (toUpperCase text)), 60)
    else ([], 0))"
  by (auto simp add: parse_true_false_def parse_letter_list_def parse_labelled_def
        parse_short_def spells_boolean_def lists_letters_def labels_letters_def few_letters_def
        Let_def split: option.splits)

lemma pattern_answer_not_empty:
  assumes "\<not> no_pattern text"
  shows "fst (if spells_boolean text then (toLowerCase text, 85)
              else if lists_letters text then (letterSet (matchAF (toUpperCase text)), 70)
              else if labels_letters text
                then (letterSet (matchAF (toUpperCase
                        (the (search_group label_pre_re label_group_re label_post_re text)))), 65)
              else if few_letters text then (letterSet (matchAF (toUpperCase text)), 60)
              else ([], 0)) \<noteq> []"
proof -
  have b: "spells_boolean text \<Longrightarrow> toLowerCase text \<noteq> []"
    using no_boolean_in_nothing by (auto simp add: spells_boolean_def toLowerCase_def)
  have l: "lists_letters text \<Longrightarrow> letterSet (matchAF (toUpperCase text)) \<noteq> []"
    by (rule letterSet_not_empty) (auto simp add: lists_letters_def)
  have g: "labels_letters text \<Longrightarrow>
      letterSet (matchAF (toUpperCase
        (the (search_group label_pre_re label_group_re label_post_re text)))) \<noteq> []"
    by (rule letterSet_not_empty) (auto simp add: labels_letters_def split: option.splits)
  have f: "few_letters text \<Longrightarrow> letterSet (matchAF (toUpperCase text)) \<noteq> []"
    by (rule letterSet_not_empty) (auto simp add: few_letters_def)
  from assms b l g f show ?thesis
    by (auto simp add: no_pattern_def)
qed

text \<open>
  C3, as stated, fails on absent raw text and on text that is JSON without an answer. For
  \<^verbatim>\<open>null\<close> and for the empty string the guard returns the empty answer with confidence 50
  before any step runs. The texts \<^verbatim>\<open>123\<close> and \<^verbatim>\<open>{"confidence":77}\<close> are read by the first
  JSON step, which finds no answer in them and returns the empty answer all the same, with
  the default confidence 50 and with the confidence 77 it read.
\<close>

theorem parse_empty_text_counterexample:
  \<open>parseAnswerWithConfidence JSON_parse None = ([], 50) \<and>
   parseAnswerWithConfidence JSON_parse (Some []) = ([], 50) \<and>
   parseAnswerWithConfidence JSON_parse (Some ''123'') = ([], 50) \<and>
   parseAnswerWithConfidence JSON_parse (Some ''{"confidence":77}'') = ([], 77) \<and>
   no_pattern ''123'' \<and> no_pattern ''{"confidence":77}''\<close>
  by code_simp

text \<open>
  C3, amended: absent raw text (\<^verbatim>\<open>null\<close> or the empty string) gives the empty answer with
  confidence 50. For any other raw text, trimmed: when one of the two JSON steps reads a
  value, what it reads is returned, an empty answer included, with a confidence between 0
  and 100 that need not be 0, and 50 when the text without its fences is JSON for a value
  other than \<^verbatim>\<open>null\<close> with neither field; when neither does and none of the four patterns matches, the
  parser returns the empty answer with confidence 0; when neither does and a pattern
  matches, the answer is not empty and the confidence is 85, 70, 65 or 60. So an empty
  answer comes with confidence 0 except on absent text and on JSON without an answer.
\<close>

theorem parse_total_failure:
  "parseAnswerWithConfidence jp None = ([], 50) \<and>
   parseAnswerWithConfidence jp (Some []) = ([], 50) \<and>
   (rawStr \<noteq> [] \<longrightarrow>
      (\<forall>a c. json_reading jp (trim rawStr) = Some (a, c) \<longrightarrow>
         parseAnswerWithConfidence jp (Some rawStr) = (a, c) \<and> 0 \<le> c \<and> c \<le> 100)
    \<and> (\<forall>v. jp (trim (replace_all fence_re (trim rawStr))) = Some v
            \<and> getProp v ''answer'' = Some None \<and> getProp v ''confidence'' = Some None \<longrightarrow>
         parseAnswerWithConfidence jp (Some rawStr) = ([], 50))
    \<and> (json_reading jp (trim rawStr) = None \<and> no_pattern (trim rawStr) \<longrightarrow>
         parseAnswerWithConfidence jp (Some rawStr) = ([], 0))
    \<and> (json_reading jp (trim rawStr) = None \<and> \<not> no_pattern (trim rawStr) \<longrightarrow>
         fst (parseAnswerWithConfidence jp (Some rawStr)) \<noteq> []
         \<and> snd (parseAnswerWithConfidence jp (Some rawStr)) \<in> {85, 70, 65, 60}))"
proof (intro conjI impI allI)
  show "parseAnswerWithConfidence jp None = ([], 50)"
    and "parseAnswerWithConfidence jp (Some []) = ([], 50)"
    by (simp_all add: parseAnswerWithConfidence_def)
next
  fix a c
  assume ne: "rawStr \<noteq> []" and j: "json_reading jp (trim rawStr) = Some (a, c)"
  from ne j show "parseAnswerWithConfidence jp (Some rawStr) = (a, c)"
    by (auto simp add: parseAnswerWithConfidence_def json_reading_def Let_def
             split: option.splits)
  from json_reading_range [OF j] show "0 \<le> c" and "c \<le> 100" by simp_all
next
  fix v
  assume ne: "rawStr \<noteq> []"
    and v: "jp (trim (replace_all fence_re (trim rawStr))) = Some v
            \<and> getProp v ''answer'' = Some None \<and> getProp v ''confidence'' = Some None"
  then have "parse_whole_json jp (trim rawStr) = Some ([], 50)"
    by (simp add: parse_whole_json_def readAnswer_no_fields)
  with ne show "parseAnswerWithConfidence jp (Some rawStr) = ([], 50)"
    by (simp add: parseAnswerWithConfidence_def Let_def)
next
  assume ne: "rawStr \<noteq> []"
  have fall: "parseAnswerWithConfidence jp (Some rawStr) =
      (if spells_boolean (trim rawStr) then (toLowerCase (trim rawStr), 85)
       else if lists_letters (trim rawStr)
         then (letterSet (matchAF (toUpperCase (trim rawStr))), 70)
       else if labels_letters (trim rawStr)
         then (letterSet (matchAF (toUpperCase
                 (the (search_group label_pre_re label_group_re label_post_re (trim rawStr))))), 65)
       else if few_letters (trim rawStr)
         then (letterSet (matchAF (toUpperCase (trim rawStr))), 60)
       else ([], 0))"
    if "json_reading jp (trim rawStr) = None"
  proof -
    from that have "parse_whole_json jp (trim rawStr) = None"
      and "parse_embedded_json jp (trim rawStr) = None"
      by (simp_all add: json_reading_def split: option.splits)
    with ne have "parseAnswerWithConfidence jp (Some rawStr) =
      (case parse_true_false (trim rawStr) of Some r \<Rightarrow> r | None \<Rightarrow>
      (case parse_letter_list (trim rawStr) of Some r \<Rightarrow> r | None \<Rightarrow>
      (case parse_labelled (trim rawStr) of Some r \<Rightarrow> r | None \<Rightarrow>
      (case parse_short (trim rawStr) of Some r \<Rightarrow> r | None \<Rightarrow> ([], 0)))))"
      by (simp add: parseAnswerWithConfidence_def Let_def)
    then show ?thesis by (simp only: pattern_steps)
  qed
  {
    assume "json_reading jp (trim rawStr) = None \<and> no_pattern (trim rawStr)"
    then show "parseAnswerWithConfidence jp (Some rawStr) = ([], 0)"
      by (simp add: fall no_pattern_def)
  }
  {
    assume h: "json_reading jp (trim rawStr) = None \<and> \<not> no_pattern (trim rawStr)"
    then have np: "\<not> no_pattern (trim rawStr)" by simp
    from h pattern_answer_not_empty [OF np]
    show "fst (parseAnswerWithConfidence jp (Some rawStr)) \<noteq> []"
      by (simp only: fall)
    from h show "snd (parseAnswerWithConfidence jp (Some rawStr)) \<in> {85, 70, 65, 60}"
      by (auto simp add: fall no_pattern_def)
  }
qed

theorem parse_total_failure_witness:
  "''blah blah unrelated text'' \<noteq> [] \<and>
   json_reading JSON_parse (trim ''blah blah unrelated text'') = None \<and>
   no_pattern (trim ''blah blah unrelated text'') \<and>
   parseAnswerWithConfidence JSON_parse (Some ''blah blah unrelated text'') = ([], 0) \<and>
   parseAnswerWithConfidence JSON_parse (Some '' False '') = (''false'', 85) \<and>
   parseAnswerWithConfidence JSON_parse (Some ''b, a c'') = (''A, B, C'', 70) \<and>
   parseAnswerWithConfidence JSON_parse (Some ''Answer: **A, C**'') = (''A, C'', 65) \<and>
   parseAnswerWithConfidence JSON_parse (Some ''(d)'') = (''D'', 60)"
proof -
  have h: "''blah blah unrelated text'' \<noteq> [] \<and>
           json_reading JSON_parse (trim ''blah blah unrelated text'') = None \<and>
           no_pattern (trim ''blah blah unrelated text'')"
    by code_simp
  have runs: "parseAnswerWithConfidence JSON_parse (Some '' False '') = (''false'', 85) \<and>
   parseAnswerWithConfidence JSON_parse (Some ''b, a c'') = (''A, B, C'', 70) \<and>
   parseAnswerWithConfidence JSON_parse (Some ''Answer: **A, C**'') = (''A, C'', 65) \<and>
   parseAnswerWithConfidence JSON_parse (Some ''(d)'') = (''D'', 60)"
    by code_simp
  from parse_total_failure [of JSON_parse "''blah blah unrelated text''"] h runs
  show ?thesis by blast
qed

text \<open>
  C9 at a reported confidence of 0: the parser returns 50. Confidence \<open>-1\<close> is clamped to 0
  and confidence 1 is kept, so 0 itself is a value the clamp is meant to let through; the
  default \<^verbatim>\<open>parseInt(parsed.confidence) || 50\<close> takes it for a missing one. The fenced
  example of the claim parses as the claim says.
\<close>

theorem parse_json_confidence_zero:
  \<open>parseAnswerWithConfidence JSON_parse (Some ''{"answer":"A","confidence":0}'') = (''A'', 50) \<and>
   parseAnswerWithConfidence JSON_parse (Some ''{"answer":"A","confidence":-1}'') = (''A'', 0) \<and>
   parseAnswerWithConfidence JSON_parse (Some ''{"answer":"A","confidence":1}'') = (''A'', 1) \<and>
   parseAnswerWithConfidence JSON_parse
     (Some (''```json'' @ [CHR 0x0A] @ ''{"answer":"B","confidence":120}'' @ [CHR 0x0A] @ ''```''))
     = (''B'', 100)\<close>
  by code_simp

section \<open>Properties of the Model Invoker\<close>

lemma callSingleModel_from_failed_prefix:
  assumes "\<forall>k. a \<le> k \<and> k < j \<longrightarrow> attempt_body jp (gen m p k) m = Inl (e k)"
    and "a \<le> j" and "j \<le> retries"
  shows "callSingleModel_from jp gen m p retries a =
           (case callSingleModel_from jp gen m p retries j of
              (r, waits) \<Rightarrow>
                (r, map (\<lambda>k. if isOverload (message (e k)) then 2000 * k else 1000 * k) [a..<j]
                    @ waits))"
  using assms
proof (induction "j - a" arbitrary: a)
  case 0
  then have "a = j" by simp
  then show ?case by (simp split: prod.splits)
next
  case (Suc d)
  then have lt: "a < j" and le: "a \<le> retries" and ne: "a \<noteq> retries" by simp_all
  from Suc.prems lt have fail: "attempt_body jp (gen m p a) m = Inl (e a)" by simp
  have d: "d = j - Suc a" using Suc.hyps(2) by simp
  have rest: "\<forall>k. Suc a \<le> k \<and> k < j \<longrightarrow> attempt_body jp (gen m p k) m = Inl (e k)"
    using Suc.prems(1) by simp
  have ih: "callSingleModel_from jp gen m p retries (Suc a) =
           (case callSingleModel_from jp gen m p retries j of
              (r, waits) \<Rightarrow>
                (r, map (\<lambda>k. if isOverload (message (e k)) then 2000 * k else 1000 * k) [Suc a..<j]
                    @ waits))"
    using Suc.hyps(1) [OF d rest] lt Suc.prems(3) by simp
  have unfold: "callSingleModel_from jp gen m p retries a =
      (case callSingleModel_from jp gen m p retries (Suc a) of
         (r, waits) \<Rightarrow> (r, (if isOverload (message (e a)) then 2000 * a else 1000 * a) # waits))"
    by (subst callSingleModel_from.simps) (simp add: le ne fail)
  show ?case
    unfolding unfold ih using lt by (simp add: upt_conv_Cons split: prod.splits)
qed

text \<open>
  What \<^verbatim>\<open>formatError\<close> makes of an \<^verbatim>\<open>Error\<close> whose message is not empty, holds no
  \<^verbatim>\<open>{"error"\<close> and is no overload for the retry loop: the loop's test has ruled out \<^verbatim>\<open>503\<close>
  and \<^verbatim>\<open>429\<close>, and the keywords that remain decide.
\<close>

lemma formatError_plain:
  assumes "message err \<noteq> []"
    and \<open>\<not> includes_str (message err) ''{"error"''\<close>
    and "\<not> isOverload (message err)"
  shows "formatError jp (ErrObj err) =
     (if includes_str (message err) ''overload'' \<or> includes_str (message err) ''UNAVAILABLE''
        then icon_busy @ '' Server sibuk''
      else if includes_str (message err) ''RESOURCE_EXHAUSTED''
              \<or> includes_str (message err) ''quota''
        then icon_rate @ '' Rate limit''
      else if includes_str (message err) ''timeout''
              \<or> includes_str (message err) ''DEADLINE_EXCEEDED''
        then icon_timeout @ '' Timeout''
      else if includes_str (message err) ''API key expired''
        then icon_key @ '' API key expired''
      else if includes_str (message err) ''401'' \<or> includes_str (message err) ''API_KEY''
              \<or> includes_str (message err) ''authentication''
        then icon_key @ '' API key invalid''
      else if includes_str (message err) ''404'' \<or> includes_str (message err) ''not found''
        then icon_unknown_model @ '' Model tidak ada''
      else if includes_str (message err) ''SAFETY'' \<or> includes_str (message err) ''blocked''
        then icon_blocked @ '' Diblokir safety''
      else if includes_str (message err) ''ECONNREFUSED'' \<or> includes_str (message err) ''network''
        then icon_network @ '' Network error''
      else if includes_str (message err) ''Empty response''
              \<or> includes_str (message err) ''parse failure''
        then icon_empty @ '' Jawaban kosong''
      else take 30 (message err) @ (if 30 < length (message err) then ''...'' else []))"
  using assms
  by (simp add: formatError_def formatError_json_def error_text_def isOverload_def Let_def)

text \<open>
  C8, amended: in a call of the Model Invoker whose attempts \<open>1, \<dots>, j - 1\<close> fail, with
  errors \<open>e 1, \<dots>, e (j - 1)\<close>, the delays slept through are \<open>2000 * k\<close> milliseconds after
  an attempt \<open>k\<close> whose error message contains \<^verbatim>\<open>503\<close>, \<^verbatim>\<open>429\<close> or \<^verbatim>\<open>Overload\<close>, in this
  spelling, and \<open>1000 * k\<close> after any other, whatever \<^verbatim>\<open>formatError\<close> makes of it. If
  attempt \<open>j\<close> succeeds its result is returned. If \<open>j\<close> is the last attempt and fails too,
  the invoker returns a failed result and no exception: its error is
  \<^verbatim>\<open>Server Overload (Max Retries)\<close> when the last message contains one of the three words,
  and otherwise what \<^verbatim>\<open>formatError\<close> makes of the last error, which for a message without
  an embedded \<^verbatim>\<open>{"error"\<close> object is read off its keywords: server busy for \<^verbatim>\<open>overload\<close> or
  \<^verbatim>\<open>UNAVAILABLE\<close>, rate limit, timeout, expired or invalid key, unknown model, blocked,
  network error, empty answer for the invoker's own \<^verbatim>\<open>Empty response or parse failure\<close>,
  and else the first 30 characters of the message. The failures are \<^verbatim>\<open>Error\<close>s with a
  string message.
\<close>

theorem callSingleModel_backoff:
  assumes "\<forall>k. 1 \<le> k \<and> k < j \<longrightarrow> attempt_body jp (gen m p k) m = Inl (e k)"
    and "1 \<le> j" and "j \<le> retries"
  shows \<open>(attempt_body jp (gen m p j) m = Inr r \<longrightarrow>
            callSingleModel jp gen m p retries =
              (r, map (\<lambda>k. if isOverload (message (e k)) then 2000 * k else 1000 * k) [1..<j]))
       \<and> (attempt_body jp (gen m p j) m = Inl (e j) \<and> j = retries \<longrightarrow>
            callSingleModel jp gen m p retries =
              (Failed m (if isOverload (message (e j)) then ''Server Overload (Max Retries)''
                         else formatError jp (ErrObj (e j))),
               map (\<lambda>k. if isOverload (message (e k)) then 2000 * k else 1000 * k) [1..<j]))
       \<and> (attempt_body jp (gen m p j) m = Inl (e j) \<and> j = retries
            \<and> \<not> isOverload (message (e j)) \<and> message (e j) \<noteq> []
            \<and> \<not> includes_str (message (e j)) ''{"error"'' \<longrightarrow>
            fst (callSingleModel jp gen m p retries) =
              Failed m
               (if includes_str (message (e j)) ''overload''
                   \<or> includes_str (message (e j)) ''UNAVAILABLE''
                  then icon_busy @ '' Server sibuk''
                else if includes_str (message (e j)) ''RESOURCE_EXHAUSTED''
                        \<or> includes_str (message (e j)) ''quota''
                  then icon_rate @ '' Rate limit''
                else if includes_str (message (e j)) ''timeout''
                        \<or> includes_str (message (e j)) ''DEADLINE_EXCEEDED''
                  then icon_timeout @ '' Timeout''
                else if includes_str (message (e j)) ''API key expired''
                  then icon_key @ '' API key expired''
                else if includes_str (message (e j)) ''401''
                        \<or> includes_str (message (e j)) ''API_KEY''
                        \<or> includes_str (message (e j)) ''authentication''
                  then icon_key @ '' API key invalid''
                else if includes_str (message (e j)) ''404''
                        \<or> includes_str (message (e j)) ''not found''
                  then icon_unknown_model @ '' Model tidak ada''
                else if includes_str (message (e j)) ''SAFETY''
                        \<or> includes_str (message (e j)) ''blocked''
                  then icon_blocked @ '' Diblokir safety''
                else if includes_str (message (e j)) ''ECONNREFUSED''
                        \<or> includes_str (message (e j)) ''network''
                  then icon_network @ '' Network error''
                else if includes_str (message (e j)) ''Empty response''
                        \<or> includes_str (message (e j)) ''parse failure''
                  then icon_empty @ '' Jawaban kosong''
                else take 30 (message (e j))
                       @ (if 30 < length (message (e j)) then ''...'' else [])))\<close>
proof -
  have pre: "callSingleModel jp gen m p retries =
           (case callSingleModel_from jp gen m p retries j of
              (r, waits) \<Rightarrow>
                (r, map (\<lambda>k. if isOverload (message (e k)) then 2000 * k else 1000 * k) [1..<j]
                    @ waits))"
    unfolding callSingleModel_def
    using callSingleModel_from_failed_prefix [of 1 j jp gen m p e retries] assms by simp
  have ok: "attempt_body jp (gen m p j) m = Inr r \<Longrightarrow>
            callSingleModel_from jp gen m p retries j = (r, [])"
    using assms(3) by (subst callSingleModel_from.simps) simp
  have ko: "attempt_body jp (gen m p j) m = Inl (e j) \<Longrightarrow> j = retries \<Longrightarrow>
            callSingleModel_from jp gen m p retries j =
              (Failed m (if isOverload (message (e j)) then ''Server Overload (Max Retries)''
                         else formatError jp (ErrObj (e j))), [])"
    by (subst callSingleModel_from.simps) simp
  have a: "attempt_body jp (gen m p j) m = Inr r \<longrightarrow>
            callSingleModel jp gen m p retries =
              (r, map (\<lambda>k. if isOverload (message (e k)) then 2000 * k else 1000 * k) [1..<j])"
    using pre ok by auto
  have b: "attempt_body jp (gen m p j) m = Inl (e j) \<and> j = retries \<longrightarrow>
            callSingleModel jp gen m p retries =
              (Failed m (if isOverload (message (e j)) then ''Server Overload (Max Retries)''
                         else formatError jp (ErrObj (e j))),
               map (\<lambda>k. if isOverload (message (e k)) then 2000 * k else 1000 * k) [1..<j])"
    using pre ko by auto
  show ?thesis
  proof (intro conjI impI)
    assume h: \<open>attempt_body jp (gen m p j) m = Inl (e j) \<and> j = retries
            \<and> \<not> isOverload (message (e j)) \<and> message (e j) \<noteq> []
            \<and> \<not> includes_str (message (e j)) ''{"error"''\<close>
    then have h1: "attempt_body jp (gen m p j) m = Inl (e j) \<and> j = retries"
      and h2: "\<not> isOverload (message (e j))"
      and h3: "message (e j) \<noteq> []"
      and h4: \<open>\<not> includes_str (message (e j)) ''{"error"''\<close>
      by blast+
    from b h1 have "callSingleModel jp gen m p retries =
              (Failed m (if isOverload (message (e j)) then ''Server Overload (Max Retries)''
                         else formatError jp (ErrObj (e j))),
               map (\<lambda>k. if isOverload (message (e k)) then 2000 * k else 1000 * k) [1..<j])"
      by (rule mp)
    with h2 have "fst (callSingleModel jp gen m p retries)
                    = Failed m (formatError jp (ErrObj (e j)))"
      by simp
    then show "fst (callSingleModel jp gen m p retries) =
              Failed m
               (if includes_str (message (e j)) ''overload''
                   \<or> includes_str (message (e j)) ''UNAVAILABLE''
                  then icon_busy @ '' Server sibuk''
                else if includes_str (message (e j)) ''RESOURCE_EXHAUSTED''
                        \<or> includes_str (message (e j)) ''quota''
                  then icon_rate @ '' Rate limit''
                else if includes_str (message (e j)) ''timeout''
                        \<or> includes_str (message (e j)) ''DEADLINE_EXCEEDED''
                  then icon_timeout @ '' Timeout''
                else if includes_str (message (e j)) ''API key expired''
                  then icon_key @ '' API key expired''
                else if includes_str (message (e j)) ''401''
                        \<or> includes_str (message (e j)) ''API_KEY''
                        \<or> includes_str (message (e j)) ''authentication''
                  then icon_key @ '' API key invalid''
                else if includes_str (message (e j)) ''404''
                        \<or> includes_str (message (e j)) ''not found''
                  then icon_unknown_model @ '' Model tidak ada''
                else if includes_str (message (e j)) ''SAFETY''
                        \<or> includes_str (message (e j)) ''blocked''
                  then icon_blocked @ '' Diblokir safety''
                else if includes_str (message (e j)) ''ECONNREFUSED''
                        \<or> includes_str (message (e j)) ''network''
                  then icon_network @ '' Network error''
                else if includes_str (message (e j)) ''Empty response''
                        \<or> includes_str (message (e j)) ''parse failure''
                  then icon_empty @ '' Jawaban kosong''
                else take 30 (message (e j))
                       @ (if 30 < length (message (e j)) then ''...'' else []))"
      by (simp only: formatError_plain [OF h3 h4 h2])
  qed (use a b in blast)+
qed

theorem callSingleModel_backoff_witness:
  "callSingleModel JSON_parse flaky_api ''gemini-2.5-pro'' ''Q'' 3 =
     (Failed ''gemini-2.5-pro'' (icon_network @ '' Network error''), [2000, 2000]) \<and>
   fst (callSingleModel JSON_parse silent_api ''gemini-2.5-pro'' ''Q'' 3) =
     Failed ''gemini-2.5-pro'' (icon_empty @ '' Jawaban kosong'')"
proof -
  have a1: "attempt_body JSON_parse (flaky_api ''gemini-2.5-pro'' ''Q'' 1) ''gemini-2.5-pro''
              = Inl (flaky_errors 1)"
    by code_simp
  have a2: "attempt_body JSON_parse (flaky_api ''gemini-2.5-pro'' ''Q'' 2) ''gemini-2.5-pro''
              = Inl (flaky_errors 2)"
    by code_simp
  have a3: "attempt_body JSON_parse (flaky_api ''gemini-2.5-pro'' ''Q'' 3) ''gemini-2.5-pro''
              = Inl (flaky_errors 3)"
    by code_simp
  have pre: "\<forall>k. 1 \<le> k \<and> k < 3 \<longrightarrow>
      attempt_body JSON_parse (flaky_api ''gemini-2.5-pro'' ''Q'' k) ''gemini-2.5-pro''
        = Inl (flaky_errors k)"
  proof (intro allI impI)
    fix k :: nat assume "1 \<le> k \<and> k < 3"
    then have "k = 1 \<or> k = 2" by arith
    then show "attempt_body JSON_parse (flaky_api ''gemini-2.5-pro'' ''Q'' k) ''gemini-2.5-pro''
        = Inl (flaky_errors k)"
      using a1 a2 by auto
  qed
  have rhs: "(Failed ''gemini-2.5-pro''
               (if isOverload (message (flaky_errors 3)) then ''Server Overload (Max Retries)''
                else formatError JSON_parse (ErrObj (flaky_errors 3))),
              map (\<lambda>k. if isOverload (message (flaky_errors k)) then 2000 * k else 1000 * k)
                [1..<3])
           = (Failed ''gemini-2.5-pro'' (icon_network @ '' Network error''), [2000, 2000])"
    by code_simp
  have s: "\<And>k. attempt_body JSON_parse (silent_api ''gemini-2.5-pro'' ''Q'' k) ''gemini-2.5-pro''
              = Inl (silent_errors k)"
    by (simp add: attempt_body_def silent_api_def silent_errors_def)
  have side: \<open>\<not> isOverload (message (silent_errors 3)) \<and> message (silent_errors 3) \<noteq> []
            \<and> \<not> includes_str (message (silent_errors 3)) ''{"error"''\<close>
    by code_simp
  have kw: "(if includes_str (message (silent_errors 3)) ''overload''
                   \<or> includes_str (message (silent_errors 3)) ''UNAVAILABLE''
                  then icon_busy @ '' Server sibuk''
                else if includes_str (message (silent_errors 3)) ''RESOURCE_EXHAUSTED''
                        \<or> includes_str (message (silent_errors 3)) ''quota''
                  then icon_rate @ '' Rate limit''
                else if includes_str (message (silent_errors 3)) ''timeout''
                        \<or> includes_str (message (silent_errors 3)) ''DEADLINE_EXCEEDED''
                  then icon_timeout @ '' Timeout''
                else if includes_str (message (silent_errors 3)) ''API key expired''
                  then icon_key @ '' API key expired''
                else if includes_str (message (silent_errors 3)) ''401''
                        \<or> includes_str (message (silent_errors 3)) ''API_KEY''
                        \<or> includes_str (message (silent_errors 3)) ''authentication''
                  then icon_key @ '' API key invalid''
                else if includes_str (message (silent_errors 3)) ''404''
                        \<or> includes_str (message (silent_errors 3)) ''not found''
                  then icon_unknown_model @ '' Model tidak ada''
                else if includes_str (message (silent_errors 3)) ''SAFETY''
                        \<or> includes_str (message (silent_errors 3)) ''blocked''
                  then icon_blocked @ '' Diblokir safety''
                else if includes_str (message (silent_errors 3)) ''ECONNREFUSED''
                        \<or> includes_str (message (silent_errors 3)) ''network''
                  then icon_network @ '' Network error''
                else if includes_str (message (silent_errors 3)) ''Empty response''
                        \<or> includes_str (message (silent_errors 3)) ''parse failure''
                  then icon_empty @ '' Jawaban kosong''
                else take 30 (message (silent_errors 3))
                       @ (if 30 < length (message (silent_errors 3)) then ''...'' else []))
            = icon_empty @ '' Jawaban kosong''"
    by code_simp
  from callSingleModel_backoff [where j = 3 and jp = JSON_parse and gen = flaky_api
      and m = "''gemini-2.5-pro''" and p = "''Q''" and e = flaky_errors and retries = 3] pre a3 rhs
  have one: "callSingleModel JSON_parse flaky_api ''gemini-2.5-pro'' ''Q'' 3 =
     (Failed ''gemini-2.5-pro'' (icon_network @ '' Network error''), [2000, 2000])"
    by simp
  have p3: "\<forall>k. 1 \<le> k \<and> k < 3 \<longrightarrow>
      attempt_body JSON_parse (silent_api ''gemini-2.5-pro'' ''Q'' k) ''gemini-2.5-pro''
        = Inl (silent_errors k)"
    using s by simp
  have h: \<open>attempt_body JSON_parse (silent_api ''gemini-2.5-pro'' ''Q'' 3) ''gemini-2.5-pro''
             = Inl (silent_errors 3) \<and> (3 :: nat) = 3
           \<and> \<not> isOverload (message (silent_errors 3)) \<and> message (silent_errors 3) \<noteq> []
           \<and> \<not> includes_str (message (silent_errors 3)) ''{"error"''\<close>
    using s side by simp
  have "1 \<le> (3 :: nat)" and "(3 :: nat) \<le> 3" by simp_all
  note t = callSingleModel_backoff [where j = 3 and jp = JSON_parse and gen = silent_api
      and m = "''gemini-2.5-pro''" and p = "''Q''" and e = silent_errors and retries = 3,
      OF p3 this]
  from mp [OF t [THEN conjunct2, THEN conjunct2] h]
  have "fst (callSingleModel JSON_parse silent_api ''gemini-2.5-pro'' ''Q'' 3) =
     Failed ''gemini-2.5-pro'' (icon_empty @ '' Jawaban kosong'')"
    by (simp only: kw)
  with one show ?thesis by simp
qed

text \<open>
  C8, as stated, at a model that reports an overload in words, \<^verbatim>\<open>The model is overloaded\<close>,
  at each of three attempts: \<^verbatim>\<open>formatError\<close> classifies the failure as a busy server, and
  the invoker returns that class, yet the delays are 1000 and 2000 milliseconds, not
  doubled. The test that doubles the delay looks for \<^verbatim>\<open>503\<close>, \<^verbatim>\<open>429\<close> or \<^verbatim>\<open>Overload\<close>
  with a capital letter, and the message holds none of them.
\<close>

theorem overload_in_words_counterexample:
  "callSingleModel JSON_parse overloaded_api ''gemini-2.5-pro'' ''Q'' 3 =
     (Failed ''gemini-2.5-pro'' (icon_busy @ '' Server sibuk''), [1000, 2000]) \<and>
   formatError JSON_parse (ErrObj (JsError ''Error'' ''The model is overloaded''))
     = icon_busy @ '' Server sibuk'' \<and>
   \<not> isOverload ''The model is overloaded''"
  by code_simp
section \<open>Properties of the Voting Engine\<close>

lemma set_insertBy: "set (insertBy cmp x xs) = insert x (set xs)"
  by (induction xs) auto

lemma set_sortBy: "set (sortBy cmp xs) = set xs"
  by (induction xs) (simp_all add: sortBy_def set_insertBy)


lemma sortBy_Nil: "sortBy cmp [] = []"
  by (simp add: sortBy_def)

lemma insertBy_head:
  "\<exists>rest. insertBy cmp x ys =
     (case ys of [] \<Rightarrow> x | y # _ \<Rightarrow> if cmp x y \<le> 0 then x else y) # rest"
  by (cases ys) auto



lemma set_Object_entries: "set (Object_entries kvs) = set kvs"
  by (auto simp add: Object_entries_def)

lemma map_of_addVote:
  "map_of (addVote vc k c m) k' =
     (if k' = k
      then Some (case map_of vc k of
                   None \<Rightarrow> \<lparr>count = 1, totalConfidence = c, models = [m]\<rparr>
                 | Some t \<Rightarrow> \<lparr>count = count t + 1, totalConfidence = totalConfidence t + c,
                              models = models t @ [m]\<rparr>)
      else map_of vc k')"
  by (induction vc k c m rule: addVote.induct) auto

lemma keys_addVote:
  "map fst (addVote vc k c m) = (if k \<in> set (map fst vc) then map fst vc else map fst vc @ [k])"
  by (induction vc k c m rule: addVote.induct) auto

lemma distinct_addVote: "distinct (map fst vc) \<Longrightarrow> distinct (map fst (addVote vc k c m))"
  by (simp add: keys_addVote)

lemma voteCounts_of_snoc:
  "voteCounts_of (rs @ [r]) (map f rs @ [f r]) = countVote (voteCounts_of rs (map f rs)) (r, f r)"
  by (simp add: voteCounts_of_def)

lemma supporters_snoc:
  "supporters options k (rs @ [r]) =
     supporters options k rs @ (if success r \<and> normalize (answer r) options = k then [r] else [])"
  by (simp add: supporters_def)

lemma plain_votes_snoc:
  "plain_votes options (rs @ [r]) \<longleftrightarrow>
     plain_votes options rs
     \<and> (success r \<longrightarrow> normalize (answer r) options \<notin> set Object_prototype_members)"
  by (auto simp add: plain_votes_def)


lemma voteCounts_tally:
  assumes "plain_votes options rs"
  shows "\<exists>vc. voteCounts_of rs (map (normalized options) rs) = Inr vc \<and>
     distinct (map fst vc) \<and>
     (\<forall>k. map_of vc k =
        (if k = [] \<or> supporters options k rs = [] then None
         else Some \<lparr>count = length (supporters options k rs),
                    totalConfidence = sum_list (map confidence (supporters options k rs)),
                    models = map model (supporters options k rs)\<rparr>))"
  using assms
proof (induction rs rule: rev_induct)
  case Nil
  show ?case by (simp add: voteCounts_of_def supporters_def)
next
  case (snoc r rs)
  from snoc.prems have p: "plain_votes options rs"
    and pr: "success r \<Longrightarrow> normalize (answer r) options \<notin> set Object_prototype_members"
    by (simp_all add: plain_votes_snoc)
  from snoc.IH [OF p] obtain vc where
    vc: "voteCounts_of rs (map (normalized options) rs) = Inr vc" and
    d: "distinct (map fst vc)" and
    m: "\<And>k. map_of vc k =
      (if k = [] \<or> supporters options k rs = [] then None
       else Some \<lparr>count = length (supporters options k rs),
                  totalConfidence = sum_list (map confidence (supporters options k rs)),
                  models = map model (supporters options k rs)\<rparr>)"
    by blast
  show ?case
  proof (cases "success r \<and> normalize (answer r) options \<noteq> []")
    case False
    then have "countVote (Inr vc) (r, normalized options r) = Inr vc"
      by (auto simp add: countVote_def normalized_def)
    moreover from False have "\<And>k. k \<noteq> [] \<Longrightarrow> supporters options k (rs @ [r]) = supporters options k rs"
      by (auto simp add: supporters_snoc)
    ultimately show ?thesis using d m by (simp add: voteCounts_of_snoc vc)
  next
    case True
    let ?a = "normalize (answer r) options"
    from True pr have cv: "countVote (Inr vc) (r, normalized options r)
                        = Inr (addVote vc ?a (confidence r) (model r))"
      by (simp add: countVote_def normalized_def)
    have "\<And>k. map_of (addVote vc ?a (confidence r) (model r)) k =
      (if k = [] \<or> supporters options k (rs @ [r]) = [] then None
       else Some \<lparr>count = length (supporters options k (rs @ [r])),
                  totalConfidence = sum_list (map confidence (supporters options k (rs @ [r]))),
                  models = map model (supporters options k (rs @ [r]))\<rparr>)"
      using True by (auto simp add: map_of_addVote m supporters_snoc)
    then show ?thesis using d by (simp add: voteCounts_of_snoc vc cv distinct_addVote)
  qed
qed



lemma sortedVotes_of_alt:
  "sortedVotes_of vc = sortBy voteCmp (map toVote (Object_entries vc))"
  by (simp add: sortedVotes_of_def toVote_def)

lemma set_sortedVotes_of: "set (sortedVotes_of vc) = toVote ` set vc"
  by (simp add: sortedVotes_of_alt set_sortBy set_Object_entries)

lemma votes_of_round:
  assumes "plain_votes options rs"
    and "voteCounts_of rs (map (normalized options) rs) = Inr vc"
    and "v \<in> set (sortedVotes_of vc)"
  shows "answer_v v \<noteq> [] \<and> supporters options (answer_v v) rs \<noteq> [] \<and>
         v = \<lparr>answer_v = answer_v v,
              count_v = length (supporters options (answer_v v) rs),
              avgConfidence = js_round_div (sum_list (map confidence (supporters options (answer_v v) rs)))
                                (length (supporters options (answer_v v) rs)),
              models_v = map model (supporters options (answer_v v) rs)\<rparr>"
proof -
  from assms(3) obtain k t where kt: "(k, t) \<in> set vc" and v: "v = toVote (k, t)"
    by (auto simp add: set_sortedVotes_of)
  from voteCounts_tally [OF assms(1)] assms(2) have d: "distinct (map fst vc)" and
    m: "map_of vc k =
      (if k = [] \<or> supporters options k rs = [] then None
       else Some \<lparr>count = length (supporters options k rs),
                  totalConfidence = sum_list (map confidence (supporters options k rs)),
                  models = map model (supporters options k rs)\<rparr>)"
    by auto
  from d kt have "map_of vc k = Some t" by simp
  with m have "k \<noteq> []" "supporters options k rs \<noteq> []"
    "t = \<lparr>count = length (supporters options k rs),
          totalConfidence = sum_list (map confidence (supporters options k rs)),
          models = map model (supporters options k rs)\<rparr>"
    by (auto split: if_splits)
  with v show ?thesis by (simp add: toVote_def)
qed


lemma no_top_vote_of_round:
  assumes "plain_votes options rs"
    and "\<forall>ans. ans \<noteq> [] \<longrightarrow> length (supporters options ans rs) < 2"
  shows "\<exists>vc. voteCounts_of rs (map (normalized options) rs) = Inr vc \<and>
         (case sortedVotes_of vc of
            [] \<Rightarrow> None
          | topVote # _ \<Rightarrow> if 2 \<le> count_v topVote then Some topVote else None) = None"
proof -
  from voteCounts_tally [OF assms(1)] obtain vc where
    vc: "voteCounts_of rs (map (normalized options) rs) = Inr vc" by blast
  have "(case sortedVotes_of vc of
            [] \<Rightarrow> None
          | topVote # _ \<Rightarrow> if 2 \<le> count_v topVote then Some topVote else None) = None"
  proof (cases "sortedVotes_of vc")
    case Nil
    then show ?thesis by simp
  next
    case (Cons v vs)
    then have "v \<in> set (sortedVotes_of vc)" by simp
    from votes_of_round [OF assms(1) vc this] have "answer_v v \<noteq> []"
      and "count_v v = length (supporters options (answer_v v) rs)"
      by (simp, metis vote.select_convs(2))
    with assms(2) have "count_v v < 2" by simp
    with Cons show ?thesis by simp
  qed
  with vc show ?thesis by blast
qed


lemma callGeminiEnsemble_unfold:
  "callGeminiEnsemble jp gen prompt options =
     (case voteCounts_of (workerResults jp gen prompt)
             (map (normalized options) (workerResults jp gen prompt)) of
        Inl e \<Rightarrow> (Inl e, workerCalls prompt)
      | Inr voteCounts \<Rightarrow>
          (case (case sortedVotes_of voteCounts of
                   [] \<Rightarrow> None
                 | topVote # _ \<Rightarrow> if 2 \<le> count_v topVote then Some topVote else None) of
             Some topVote \<Rightarrow>
               (Inr \<lparr>finalAnswer = answer_v topVote, finalConfidence = avgConfidence topVote,
                     votes = None, modelAnswers = None,
                     method_of = (if count_v topVote = 3 then ''unanimous'' else ''majority'')\<rparr>,
                workerCalls prompt)
           | None \<Rightarrow>
               (if success (judgeResult jp gen prompt) then
                  (Inr \<lparr>finalAnswer = answer (judgeResult jp gen prompt),
                        finalConfidence = confidence (judgeResult jp gen prompt),
                        votes = None, modelAnswers = None, method_of = ''judge''\<rparr>,
                   workerCalls prompt @ [(MODELS ! 3, prompt)])
                else
                  (case sortBy (\<lambda>a b. confidence b - confidence a)
                          (filter success (workerResults jp gen prompt)) of
                     best # _ \<Rightarrow>
                       (Inr \<lparr>finalAnswer = answer best, finalConfidence = confidence best,
                             votes = None, modelAnswers = None, method_of = ''fallback_worker''\<rparr>,
                        workerCalls prompt @ [(MODELS ! 3, prompt)])
                   | [] \<Rightarrow>
                       (Inl (JsError ''Error'' ''All models failed including Judge''),
                        workerCalls prompt @ [(MODELS ! 3, prompt)])))))"
proof -
  have n: "(\<lambda>r. if success r then Some (normalize (answer r) options) else None)
             = normalized options"
    by (rule ext) (simp add: normalized_def)
  show ?thesis
    unfolding callGeminiEnsemble_def Let_def n workerResults_def judgeResult_def workerCalls_def
    by (rule refl)
qed







lemma callGeminiEnsemble_no_majority:
  assumes "plain_votes options (workerResults jp gen prompt)"
    and "\<forall>ans. ans \<noteq> [] \<longrightarrow> length (supporters options ans (workerResults jp gen prompt)) < 2"
  shows "callGeminiEnsemble jp gen prompt options =
          (if success (judgeResult jp gen prompt) then
             (Inr \<lparr>finalAnswer = answer (judgeResult jp gen prompt),
                   finalConfidence = confidence (judgeResult jp gen prompt),
                   votes = None, modelAnswers = None, method_of = ''judge''\<rparr>,
              workerCalls prompt @ [(MODELS ! 3, prompt)])
           else
             (case sortBy (\<lambda>a b. confidence b - confidence a)
                     (filter success (workerResults jp gen prompt)) of
                best # _ \<Rightarrow>
                  (Inr \<lparr>finalAnswer = answer best, finalConfidence = confidence best,
                        votes = None, modelAnswers = None, method_of = ''fallback_worker''\<rparr>,
                   workerCalls prompt @ [(MODELS ! 3, prompt)])
              | [] \<Rightarrow>
                  (Inl (JsError ''Error'' ''All models failed including Judge''),
                   workerCalls prompt @ [(MODELS ! 3, prompt)])))"
proof -
  from no_top_vote_of_round [OF assms] obtain vc where
    "voteCounts_of (workerResults jp gen prompt)
        (map (normalized options) (workerResults jp gen prompt)) = Inr vc"
    "(case sortedVotes_of vc of
        [] \<Rightarrow> None
      | topVote # _ \<Rightarrow> if 2 \<le> count_v topVote then Some topVote else None) = None"
    by blast
  then show ?thesis
    by (subst callGeminiEnsemble_unfold) (simp only: sum.case option.case)
qed

lemma all_models_failed:
  assumes "\<forall>m\<in>set MODELS. \<not> success (fst (callSingleModel jp gen m prompt 3))"
  shows "fst (callGeminiEnsemble jp gen prompt options) =
           Inl (JsError ''Error'' ''All models failed including Judge'')"
proof -
  from assms have w: "filter success (workerResults jp gen prompt) = []"
    and j: "\<not> success (judgeResult jp gen prompt)"
    by (simp_all add: workerResults_def judgeResult_def MODELS_def)
  from w have none: "\<forall>r\<in>set (workerResults jp gen prompt). \<not> success r"
    by (simp add: filter_empty_conv)
  then have p: "plain_votes options (workerResults jp gen prompt)"
    by (simp add: plain_votes_def)
  from w have "\<forall>ans. supporters options ans (workerResults jp gen prompt) = []"
    by (simp add: supporters_def filter_empty_conv)
  then have "\<forall>ans. ans \<noteq> [] \<longrightarrow> length (supporters options ans (workerResults jp gen prompt)) < 2"
    by simp
  from callGeminiEnsemble_no_majority [OF p this] w j show ?thesis
    by (simp add: sortBy_Nil)
qed



section \<open>Properties of the confidence-weighted variant\<close>

lemma penalize_fields:
  "answer (fst (penalize r)) = answer r"
  "model (fst (penalize r)) = model r"
  "confidence (fst (penalize r)) = cappedConfidence r"
  "snd (penalize r) = (4 \<le> length (normalizeAnswer (answer_opt r)))"
  by (cases r; simp add: penalize_def cappedConfidence_def answer_opt_def normalizeAnswer_def)+

lemma answerCounts_of_snoc:
  "answerCounts_of (xs @ [ru]) =
     addVote (answerCounts_of xs) (trim (toUpperCase (answer (fst ru))))
       (confidence (fst ru)) (model (fst ru))"
  by (simp add: answerCounts_of_def)

lemma answerCounts_tally:
  "distinct (map fst (answerCounts_of (map penalize rs))) \<and>
   (\<forall>k. map_of (answerCounts_of (map penalize rs)) k =
      (if filter (\<lambda>r. exactKey r = k) rs = [] then None
       else Some \<lparr>count = length (filter (\<lambda>r. exactKey r = k) rs),
                  totalConfidence = sum_list (map cappedConfidence (filter (\<lambda>r. exactKey r = k) rs)),
                  models = map model (filter (\<lambda>r. exactKey r = k) rs)\<rparr>))"
proof (induction rs rule: rev_induct)
  case Nil
  show ?case by (simp add: answerCounts_of_def)
next
  case (snoc r rs)
  then have d: "distinct (map fst (answerCounts_of (map penalize rs)))" and
    m: "\<And>k. map_of (answerCounts_of (map penalize rs)) k =
      (if filter (\<lambda>r. exactKey r = k) rs = [] then None
       else Some \<lparr>count = length (filter (\<lambda>r. exactKey r = k) rs),
                  totalConfidence = sum_list (map cappedConfidence (filter (\<lambda>r. exactKey r = k) rs)),
                  models = map model (filter (\<lambda>r. exactKey r = k) rs)\<rparr>)"
    by simp_all
  have step: "answerCounts_of (map penalize (rs @ [r])) =
     addVote (answerCounts_of (map penalize rs)) (exactKey r) (cappedConfidence r) (model r)"
    by (simp add: answerCounts_of_snoc penalize_fields exactKey_def)
  show ?case
    unfolding step using d by (auto simp add: map_of_addVote m distinct_addVote)
qed

lemma tallied_votes:
  assumes "v \<in> set (sortedVotes_of (answerCounts_of (map penalize rs)))"
  shows "count_v v = length (filter (\<lambda>r. exactKey r = answer_v v) rs) \<and>
         avgConfidence v =
           js_round_div (sum_list (map cappedConfidence (filter (\<lambda>r. exactKey r = answer_v v) rs)))
             (length (filter (\<lambda>r. exactKey r = answer_v v) rs))"
proof -
  let ?ac = "answerCounts_of (map penalize rs)"
  from assms obtain k t where kt: "(k, t) \<in> set ?ac" and v: "v = toVote (k, t)"
    by (auto simp add: set_sortedVotes_of)
  from answerCounts_tally [of rs] have d: "distinct (map fst ?ac)" and
    m: "map_of ?ac k =
      (if filter (\<lambda>r. exactKey r = k) rs = [] then None
       else Some \<lparr>count = length (filter (\<lambda>r. exactKey r = k) rs),
                  totalConfidence = sum_list (map cappedConfidence (filter (\<lambda>r. exactKey r = k) rs)),
                  models = map model (filter (\<lambda>r. exactKey r = k) rs)\<rparr>)"
    by simp_all
  from d kt have "map_of ?ac k = Some t" by simp
  with m have "t = \<lparr>count = length (filter (\<lambda>r. exactKey r = k) rs),
                  totalConfidence = sum_list (map cappedConfidence (filter (\<lambda>r. exactKey r = k) rs)),
                  models = map model (filter (\<lambda>r. exactKey r = k) rs)\<rparr>"
    by (auto split: if_splits)
  with v show ?thesis by (simp add: toVote_def)
qed

lemma decide_returns:
  assumes "reliableResults \<noteq> []"
  shows "\<exists>ans conf how. decide reliableResults sortedAnswers = Inr (ans, conf, how)"
  using assms
  by (cases reliableResults) (auto simp add: decide_def Let_def split: option.splits list.splits)

text \<open>
  C10, amended: when two or more results succeeded, every successful result enters the
  tally with its confidence capped at 40 if its answer normalizes to four or more labels,
  whatever confidence it reported, and is marked unreliable; the count and the average of
  each tallied answer are those of the capped confidences. A lone successful result is
  returned as it is, with method \<^verbatim>\<open>single\<close> and its reported confidence.
\<close>

theorem unreliable_results_capped:
  "(length (filter success rs) = 1 \<longrightarrow>
      (\<exists>r. filter success rs = [r] \<and>
           confidenceWeightedVote rs =
             Inr \<lparr>finalAnswer = answer r, finalConfidence = confidence r,
                  votes = Some [(answer r, 1, confidence r)],
                  modelAnswers = Some [(model r, answer r, confidence r)],
                  method_of = ''single''\<rparr>)) \<and>
   (2 \<le> length (filter success rs) \<longrightarrow>
      (\<exists>v tallied. confidenceWeightedVote rs = Inr v \<and>
         modelAnswers v =
           Some (map (\<lambda>r. (model r @ (if 4 \<le> length (normalizeAnswer (answer_opt r))
                                       then unreliable_mark else []),
                            answer r, cappedConfidence r))
                     (filter success rs)) \<and>
         votes v = Some tallied \<and>
         (\<forall>(k, n, avg) \<in> set tallied.
            n = length (filter (\<lambda>r. exactKey r = k) (filter success rs)) \<and>
            avg = js_round_div
                    (sum_list (map cappedConfidence
                                 (filter (\<lambda>r. exactKey r = k) (filter success rs))))
                    n)))"
proof (intro conjI impI)
  assume "length (filter success rs) = 1"
  then obtain r where r: "filter success rs = [r]"
    by (cases "filter success rs") auto
  then show "\<exists>r. filter success rs = [r] \<and>
           confidenceWeightedVote rs =
             Inr \<lparr>finalAnswer = answer r, finalConfidence = confidence r,
                  votes = Some [(answer r, 1, confidence r)],
                  modelAnswers = Some [(model r, answer r, confidence r)],
                  method_of = ''single''\<rparr>"
    by (simp add: confidenceWeightedVote_def)
next
  let ?S = "filter success rs"
  let ?rel = "map penalize ?S"
  let ?sorted = "sortedVotes_of (answerCounts_of ?rel)"
  assume two: "2 \<le> length ?S"
  then have "?rel \<noteq> []" by auto
  from decide_returns [OF this, of ?sorted] obtain ans conf how where
    dec: "decide ?rel ?sorted = Inr (ans, conf, how)" by blast
  let ?v = "\<lparr>finalAnswer = ans, finalConfidence = conf,
             votes = Some (map (\<lambda>a. (answer_v a, count_v a, avgConfidence a)) ?sorted),
             modelAnswers =
               Some (map (\<lambda>ru. (model (fst ru) @ (if snd ru then unreliable_mark else []),
                                 answer (fst ru), confidence (fst ru))) ?rel),
             method_of = how\<rparr>"
  from two have "length ?S \<noteq> 0" "length ?S \<noteq> 1" by linarith+
  with dec have res: "confidenceWeightedVote rs = Inr ?v"
    by (simp add: confidenceWeightedVote_def Let_def del: length_0_conv)
  have ma: "modelAnswers ?v =
           Some (map (\<lambda>r. (model r @ (if 4 \<le> length (normalizeAnswer (answer_opt r))
                                       then unreliable_mark else []),
                            answer r, cappedConfidence r)) ?S)"
    by (simp add: penalize_fields comp_def)
  have tl: "\<forall>(k, n, avg) \<in> set (map (\<lambda>a. (answer_v a, count_v a, avgConfidence a)) ?sorted).
            n = length (filter (\<lambda>r. exactKey r = k) ?S) \<and>
            avg = js_round_div
                    (sum_list (map cappedConfidence (filter (\<lambda>r. exactKey r = k) ?S))) n"
    using tallied_votes [of _ ?S] by auto
  from res ma tl show "\<exists>v tallied. confidenceWeightedVote rs = Inr v \<and>
         modelAnswers v =
           Some (map (\<lambda>r. (model r @ (if 4 \<le> length (normalizeAnswer (answer_opt r))
                                       then unreliable_mark else []),
                            answer r, cappedConfidence r)) ?S) \<and>
         votes v = Some tallied \<and>
         (\<forall>(k, n, avg) \<in> set tallied.
            n = length (filter (\<lambda>r. exactKey r = k) ?S) \<and>
            avg = js_round_div
                    (sum_list (map cappedConfidence (filter (\<lambda>r. exactKey r = k) ?S))) n)"
    by (intro exI [of _ ?v] exI [of _ "map (\<lambda>a. (answer_v a, count_v a, avgConfidence a)) ?sorted"])
       simp
qed

theorem unreliable_results_capped_witness:
  "2 \<le> length (filter success confused_results) \<and>
   (\<exists>v. confidenceWeightedVote confused_results = Inr v \<and>
        modelAnswers v =
          Some [(MODELS ! 0 @ unreliable_mark, ''A, B, C, D, E'', 40), (MODELS ! 1, ''B'', 30)])"
proof -
  have two: "2 \<le> length (filter success confused_results)"
    by code_simp
  have m: "map (\<lambda>r. (model r @ (if 4 \<le> length (normalizeAnswer (answer_opt r))
                                  then unreliable_mark else []),
                       answer r, cappedConfidence r))
             (filter success confused_results)
           = [(MODELS ! 0 @ unreliable_mark, ''A, B, C, D, E'', 40), (MODELS ! 1, ''B'', 30)]"
    by code_simp
  from unreliable_results_capped [of confused_results] two m show ?thesis
    by auto
qed

text \<open>
  C10, as stated, at a lone successful result proposing five letters at confidence 95: it is
  returned, and listed in the votes, with confidence 95.
\<close>

theorem lone_result_uncapped_counterexample:
  "normalizeAnswer (Some ''A, B, C, D, E'') = [''A'', ''B'', ''C'', ''D'', ''E''] \<and>
   confidenceWeightedVote lone_confused_result =
     Inr \<lparr>finalAnswer = ''A, B, C, D, E'', finalConfidence = 95,
          votes = Some [(''A, B, C, D, E'', 1, 95)],
          modelAnswers = Some [(MODELS ! 0, ''A, B, C, D, E'', 95)],
          method_of = ''single''\<rparr>"
  by code_simp

section \<open>Properties of the request handling\<close>

lemma pending_nextEntry: "pending (nextEntry s) = requestQueue s"
  by (cases "requestQueue s") (simp_all add: nextEntry_def pending_def)

lemma nextEntry_fields:
  "recentAnswers (nextEntry s) = recentAnswers s"
  "inflight (nextEntry s) = inflight s"
  "awaiting (nextEntry s) = awaiting s"
  "promises (nextEntry s) = promises s"
  by (cases "requestQueue s"; simp add: nextEntry_def)+

lemma nextEntry_flags:
  "isProcessing s \<Longrightarrow>
     (isProcessing (nextEntry s) \<longleftrightarrow> running (nextEntry s) \<noteq> None) \<and>
     (running (nextEntry s) = None \<longrightarrow> requestQueue (nextEntry s) = [])"
  by (cases "requestQueue s") (simp_all add: nextEntry_def)

lemma processQueue_fields:
  "recentAnswers (processQueue s) = recentAnswers s"
  "inflight (processQueue s) = inflight s"
  "awaiting (processQueue s) = awaiting s"
  "promises (processQueue s) = promises s"
  by (simp_all add: processQueue_def nextEntry_fields)

lemma pending_processQueue:
  "(isProcessing s \<longleftrightarrow> running s \<noteq> None) \<Longrightarrow> pending (processQueue s) = pending s"
  by (cases "requestQueue s")
     (auto simp add: processQueue_def nextEntry_def pending_def split: option.splits)

lemma processQueue_flags:
  "(isProcessing s \<longleftrightarrow> running s \<noteq> None) \<Longrightarrow> requestQueue s \<noteq> [] \<Longrightarrow>
     isProcessing (processQueue s) \<and> running (processQueue s) \<noteq> None"
  by (cases "requestQueue s") (auto simp add: processQueue_def nextEntry_def)

lemma vacuum_Some:
  "vacuum now cache k = Some (a, ts) \<longleftrightarrow> cache k = Some (a, ts) \<and> \<not> TTL_MS < now - ts"
  by (auto simp add: vacuum_def split: option.splits)

lemma vacuum_None:
  "vacuum now cache k = None \<longleftrightarrow>
     (case cache k of None \<Rightarrow> True | Some (a, ts) \<Rightarrow> TTL_MS < now - ts)"
  by (auto simp add: vacuum_def split: option.splits)

text \<open>The three ways an admission goes.\<close>

lemma admit_cached:
  assumes "recentAnswers s k = Some (a, ts)" and "\<not> TTL_MS < now1 - ts" and "now2 - ts \<le> TTL_MS"
  shows "handler_admit c k rp now1 now2 now3 s =
           (Some (Cached a), s\<lparr>recentAnswers := vacuum now1 (recentAnswers s)\<rparr>)"
proof -
  from assms(1,2) have "vacuum now1 (recentAnswers s) k = Some (a, ts)"
    by (simp add: vacuum_Some)
  with assms(3) show ?thesis by (simp add: handler_admit_def Let_def)
qed

lemma missed_lookup:
  "missed k now1 now2 s \<Longrightarrow>
     (case vacuum now1 (recentAnswers s) k of
        None \<Rightarrow> None
      | Some (a, ts) \<Rightarrow> if now2 - ts \<le> TTL_MS then Some a else None) = None"
  by (auto simp add: missed_def vacuum_def split: option.splits)

lemma admit_coalesced:
  assumes "missed k now1 now2 s" and "inflight s k = Some p"
  shows "handler_admit c k rp now1 now2 now3 s =
           (None, s\<lparr>recentAnswers := vacuum now1 (recentAnswers s),
                    awaiting := awaiting s @ [(c, p, True)]\<rparr>)"
  using missed_lookup [OF assms(1)] assms(2) by (simp add: handler_admit_def Let_def)

lemma admit_new:
  assumes "missed k now1 now2 s" and "inflight s k = None"
  shows "handler_admit c k rp now1 now2 now3 s =
           (None,
            (processQueue
               (s\<lparr>recentAnswers := vacuum now1 (recentAnswers s),
                  promises := promises s + 1,
                  requestQueue := requestQueue s
                    @ [\<lparr>key = k, rawPrompt = rp, promise = promises s, startTime = now3\<rparr>],
                  inflight := (inflight s)(k \<mapsto> promises s)\<rparr>))
            \<lparr>awaiting := awaiting s @ [(c, promises s, False)]\<rparr>)"
  using missed_lookup [OF assms(1)] assms(2)
  by (simp add: handler_admit_def Let_def processQueue_fields)

lemma inv_stale:
  "server_inv t s \<Longrightarrow> inflight s k = Some p \<Longrightarrow> recentAnswers s k = Some (a, ts)
     \<Longrightarrow> TTL_MS < t - ts"
  unfolding server_inv_def by blast

lemma inv_inflight:
  "server_inv t s \<Longrightarrow> inflight s k = map_of (map (\<lambda>e. (key e, promise e)) (pending s)) k"
  unfolding server_inv_def by blast

lemma inv_flags:
  "server_inv t s \<Longrightarrow> (isProcessing s \<longleftrightarrow> running s \<noteq> None)"
  "server_inv t s \<Longrightarrow> running s = None \<Longrightarrow> requestQueue s = []"
  unfolding server_inv_def by blast+

lemma inv_distinct:
  "server_inv t s \<Longrightarrow> distinct (map key (pending s))"
  "server_inv t s \<Longrightarrow> distinct (map promise (pending s))"
  unfolding server_inv_def by blast+

lemma inv_promises:
  "server_inv t s \<Longrightarrow> e \<in> set (pending s) \<Longrightarrow> promise e < promises s"
  unfolding server_inv_def by blast

lemma inv_awaiting:
  "server_inv t s \<Longrightarrow> w \<in> set (awaiting s) \<Longrightarrow> fst (snd w) \<in> promise ` set (pending s)"
  unfolding server_inv_def by blast

lemma not_missed:
  "\<not> missed k now1 now2 s \<Longrightarrow>
     \<exists>a ts. recentAnswers s k = Some (a, ts) \<and> \<not> TTL_MS < now1 - ts \<and> now2 - ts \<le> TTL_MS"
  by (cases "recentAnswers s k") (auto simp add: missed_def)

lemma server_invI:
  assumes "distinct (map key (pending s))"
    and "distinct (map promise (pending s))"
    and "\<And>k. inflight s k = map_of (map (\<lambda>e. (key e, promise e)) (pending s)) k"
    and "\<And>e. e \<in> set (pending s) \<Longrightarrow> promise e < promises s"
    and "isProcessing s \<longleftrightarrow> running s \<noteq> None"
    and "running s = None \<Longrightarrow> requestQueue s = []"
    and "\<And>k p a ts. inflight s k = Some p \<Longrightarrow> recentAnswers s k = Some (a, ts) \<Longrightarrow> TTL_MS < t - ts"
    and "\<And>w. w \<in> set (awaiting s) \<Longrightarrow> fst (snd w) \<in> promise ` set (pending s)"
  shows "server_inv t s"
  unfolding server_inv_def using assms by blast

lemma inv_clock_vacuum:
  assumes "server_inv t s" and "t \<le> t'"
  shows "server_inv t' (s\<lparr>recentAnswers := vacuum now (recentAnswers s)\<rparr>)"
proof -
  define s1 where "s1 = s\<lparr>recentAnswers := vacuum now (recentAnswers s)\<rparr>"
  have p: "pending s1 = pending s" and f: "inflight s1 = inflight s"
    and c: "recentAnswers s1 = vacuum now (recentAnswers s)"
    and o: "promises s1 = promises s" "isProcessing s1 = isProcessing s" "running s1 = running s"
           "requestQueue s1 = requestQueue s" "awaiting s1 = awaiting s"
    by (simp_all add: s1_def pending_def)
  have "server_inv t' s1"
  proof (rule server_invI)
    show "distinct (map key (pending s1))" "distinct (map promise (pending s1))"
      unfolding p using inv_distinct [OF assms(1)] by simp_all
    show "\<And>k. inflight s1 k = map_of (map (\<lambda>e. (key e, promise e)) (pending s1)) k"
      unfolding p f by (rule inv_inflight [OF assms(1)])
    show "\<And>e. e \<in> set (pending s1) \<Longrightarrow> promise e < promises s1"
      unfolding p o by (rule inv_promises [OF assms(1)])
    show "isProcessing s1 \<longleftrightarrow> running s1 \<noteq> None"
      unfolding o by (rule inv_flags(1) [OF assms(1)])
    show "running s1 = None \<Longrightarrow> requestQueue s1 = []"
      unfolding o by (rule inv_flags(2) [OF assms(1)])
    show "\<And>w. w \<in> set (awaiting s1) \<Longrightarrow> fst (snd w) \<in> promise ` set (pending s1)"
      unfolding p o by (rule inv_awaiting [OF assms(1)])
    show "\<And>k p a ts. inflight s1 k = Some p \<Longrightarrow> recentAnswers s1 k = Some (a, ts)
            \<Longrightarrow> TTL_MS < t' - ts"
    proof -
      fix k p a ts assume "inflight s1 k = Some p" "recentAnswers s1 k = Some (a, ts)"
      then have "inflight s k = Some p" "recentAnswers s k = Some (a, ts)"
        by (simp_all add: f c vacuum_Some)
      from inv_stale [OF assms(1) this] assms(2) show "TTL_MS < t' - ts" by simp
    qed
  qed
  then show ?thesis by (simp add: s1_def)
qed

lemma inv_admit:
  assumes inv: "server_inv t s" and t: "t \<le> now1" "now1 \<le> now2" "now2 \<le> now3"
  shows "server_inv now3 (snd (handler_admit c k rp now1 now2 now3 s))"
proof -
  from t have t3: "t \<le> now3" by simp
  have inv1: "server_inv now3 (s\<lparr>recentAnswers := vacuum now1 (recentAnswers s)\<rparr>)"
    by (rule inv_clock_vacuum [OF inv t3])
  show ?thesis
  proof (cases "missed k now1 now2 s")
    case False
    from not_missed [OF this] obtain a ts where "recentAnswers s k = Some (a, ts)"
      "\<not> TTL_MS < now1 - ts" "now2 - ts \<le> TTL_MS"
      by blast
    from admit_cached [OF this] inv1 show ?thesis by simp
  next
    case True
    show ?thesis
    proof (cases "inflight s k")
      case (Some p)
      define s1 where "s1 = s\<lparr>recentAnswers := vacuum now1 (recentAnswers s)\<rparr>"
      define s2 where "s2 = s1\<lparr>awaiting := awaiting s1 @ [(c, p, True)]\<rparr>"
      have i1: "server_inv now3 s1" using inv1 by (simp add: s1_def)
      have p2: "pending s2 = pending s1" and f2: "inflight s2 = inflight s1"
        and c2: "recentAnswers s2 = recentAnswers s1"
        and o2: "promises s2 = promises s1" "isProcessing s2 = isProcessing s1"
           "running s2 = running s1" "requestQueue s2 = requestQueue s1"
        and a2: "awaiting s2 = awaiting s1 @ [(c, p, True)]"
        by (simp_all add: s2_def pending_def)
      have "inflight s1 k = Some p" using Some by (simp add: s1_def)
      then have "map_of (map (\<lambda>e. (key e, promise e)) (pending s1)) k = Some p"
        using inv_inflight [OF i1, of k] by simp
      then have pin: "p \<in> promise ` set (pending s1)"
        by (auto dest!: map_of_SomeD)
      have "server_inv now3 s2"
      proof (rule server_invI)
        show "distinct (map key (pending s2))" "distinct (map promise (pending s2))"
          unfolding p2 using inv_distinct [OF i1] by simp_all
        show "\<And>k. inflight s2 k = map_of (map (\<lambda>e. (key e, promise e)) (pending s2)) k"
          unfolding p2 f2 by (rule inv_inflight [OF i1])
        show "\<And>e. e \<in> set (pending s2) \<Longrightarrow> promise e < promises s2"
          unfolding p2 o2 by (rule inv_promises [OF i1])
        show "isProcessing s2 \<longleftrightarrow> running s2 \<noteq> None"
          unfolding o2 by (rule inv_flags(1) [OF i1])
        show "running s2 = None \<Longrightarrow> requestQueue s2 = []"
          unfolding o2 by (rule inv_flags(2) [OF i1])
        show "\<And>k p a ts. inflight s2 k = Some p \<Longrightarrow> recentAnswers s2 k = Some (a, ts)
            \<Longrightarrow> TTL_MS < now3 - ts"
          unfolding f2 c2 by (rule inv_stale [OF i1])
        show "\<And>w. w \<in> set (awaiting s2) \<Longrightarrow> fst (snd w) \<in> promise ` set (pending s2)"
          unfolding p2 a2 using inv_awaiting [OF i1] pin by auto
      qed
      moreover from admit_coalesced [OF True Some]
      have "snd (handler_admit c k rp now1 now2 now3 s) = s2"
        by (simp add: s2_def s1_def)
      ultimately show ?thesis by simp
    next
      case None
      define e where "e = \<lparr>key = k, rawPrompt = rp, promise = promises s, startTime = now3\<rparr>"
      define s2 where "s2 = s\<lparr>recentAnswers := vacuum now1 (recentAnswers s),
                  promises := promises s + 1,
                  requestQueue := requestQueue s @ [e],
                  inflight := (inflight s)(k \<mapsto> promises s)\<rparr>"
      define s3 where "s3 = (processQueue s2)\<lparr>awaiting := awaiting s @ [(c, promises s, False)]\<rparr>"
      have res: "snd (handler_admit c k rp now1 now2 now3 s) = s3"
        using admit_new [OF True None] by (simp add: s3_def s2_def e_def)
      have flags2: "isProcessing s2 \<longleftrightarrow> running s2 \<noteq> None"
        using inv_flags(1) [OF inv] by (simp add: s2_def)
      have "pending (processQueue s2) = pending s2"
        by (rule pending_processQueue [OF flags2])
      moreover have "pending s2 = pending s @ [e]" by (simp add: s2_def pending_def)
      ultimately have pend: "pending s3 = pending s @ [e]"
        by (simp add: s3_def pending_def)
      have infl: "inflight s3 = (inflight s)(k \<mapsto> promises s)"
        and cache: "recentAnswers s3 = vacuum now1 (recentAnswers s)"
        and prom: "promises s3 = promises s + 1"
        and aw: "awaiting s3 = awaiting s @ [(c, promises s, False)]"
        by (simp_all add: s3_def s2_def processQueue_fields)
      have ke: "key e = k" and pe: "promise e = promises s" by (simp_all add: e_def)
      have mk: "map_of (map (\<lambda>e. (key e, promise e)) (pending s)) k = None"
        using inv_inflight [OF inv, of k] None by simp
      then have knew: "k \<notin> key ` set (pending s)"
        by (auto simp add: map_of_eq_None_iff image_iff)
      have pnew: "promises s \<notin> promise ` set (pending s)"
        using inv_promises [OF inv] by (metis image_iff less_irrefl)
      have "server_inv now3 s3"
      proof (rule server_invI)
        show "distinct (map key (pending s3))"
          unfolding pend using inv_distinct(1) [OF inv] knew by (simp add: ke)
        show "distinct (map promise (pending s3))"
          unfolding pend using inv_distinct(2) [OF inv] pnew by (simp add: pe)
        show "\<And>k'. inflight s3 k' = map_of (map (\<lambda>e. (key e, promise e)) (pending s3)) k'"
        proof -
          fix k'
          show "inflight s3 k' = map_of (map (\<lambda>e. (key e, promise e)) (pending s3)) k'"
            unfolding pend infl using inv_inflight [OF inv, of k'] mk
            by (auto simp add: ke pe map_add_def split: option.splits)
        qed
        show "\<And>e'. e' \<in> set (pending s3) \<Longrightarrow> promise e' < promises s3"
          unfolding pend prom using inv_promises [OF inv] by (auto simp add: pe less_Suc_eq)
        show "isProcessing s3 \<longleftrightarrow> running s3 \<noteq> None"
          using inv_flags [OF inv]
          by (cases "requestQueue s")
             (auto simp add: s3_def s2_def processQueue_def nextEntry_def)
        show "running s3 = None \<Longrightarrow> requestQueue s3 = []"
          using inv_flags [OF inv]
          by (cases "requestQueue s")
             (auto simp add: s3_def s2_def processQueue_def nextEntry_def split: if_splits)
        show "\<And>k' p a ts. inflight s3 k' = Some p \<Longrightarrow> recentAnswers s3 k' = Some (a, ts)
            \<Longrightarrow> TTL_MS < now3 - ts"
        proof -
          fix k' p a ts
          assume h: "inflight s3 k' = Some p" "recentAnswers s3 k' = Some (a, ts)"
          then have v: "recentAnswers s k' = Some (a, ts)" "\<not> TTL_MS < now1 - ts"
            by (simp_all add: cache vacuum_Some)
          show "TTL_MS < now3 - ts"
          proof (cases "k' = k")
            case True
            with v \<open>missed k now1 now2 s\<close> have "TTL_MS < now2 - ts"
              by (simp add: missed_def)
            with t show ?thesis by simp
          next
            case False
            with h have "inflight s k' = Some p" by (simp add: infl)
            from inv_stale [OF inv this v(1)] t show ?thesis by simp
          qed
        qed
        show "\<And>w. w \<in> set (awaiting s3) \<Longrightarrow> fst (snd w) \<in> promise ` set (pending s3)"
          unfolding pend aw using inv_awaiting [OF inv] by (auto simp add: pe)
      qed
      with res show ?thesis by simp
    qed
  qed
qed

text \<open>What a settling step leaves behind.\<close>

lemma settle_idle: "running s = None \<Longrightarrow> worker_settle jp gen now_d now_ts s = ([], s)"
  by (simp add: worker_settle_def)

lemma settle_fields:
  assumes "running s = Some e"
  shows "pending (snd (worker_settle jp gen now_d now_ts s)) = requestQueue s"
    and "inflight (snd (worker_settle jp gen now_d now_ts s)) = (inflight s)(key e := None)"
    and "awaiting (snd (worker_settle jp gen now_d now_ts s))
           = filter (\<lambda>w. fst (snd w) \<noteq> promise e) (awaiting s)"
    and "promises (snd (worker_settle jp gen now_d now_ts s)) = promises s"
    and "recentAnswers (snd (worker_settle jp gen now_d now_ts s)) =
           (case settle_outcome jp gen now_d e of
              Inl err \<Rightarrow> recentAnswers s
            | Inr (a, duration, conf) \<Rightarrow> (recentAnswers s)(key e \<mapsto> (a, now_ts)))"
    and "fst (worker_settle jp gen now_d now_ts s) =
           map (\<lambda>w. (fst w, respond (settle_outcome jp gen now_d e) (snd (snd w))))
               (filter (\<lambda>w. fst (snd w) = promise e) (awaiting s))"
  using assms
  by (auto simp add: worker_settle_def Let_def pending_nextEntry nextEntry_fields
           split: sum.splits prod.splits)

lemma settle_flags:
  assumes "running s = Some e" and "isProcessing s"
  shows "isProcessing (snd (worker_settle jp gen now_d now_ts s))
           \<longleftrightarrow> running (snd (worker_settle jp gen now_d now_ts s)) \<noteq> None"
    and "running (snd (worker_settle jp gen now_d now_ts s)) = None
           \<Longrightarrow> requestQueue (snd (worker_settle jp gen now_d now_ts s)) = []"
  using assms
  by (cases "requestQueue s";
      auto simp add: worker_settle_def Let_def nextEntry_def split: sum.splits prod.splits)+

lemma inv_clock: "server_inv t s \<Longrightarrow> t \<le> t' \<Longrightarrow> server_inv t' s"
  unfolding server_inv_def by (elim conjE, intro conjI; (assumption | force))

lemma inv_settle:
  assumes inv: "server_inv t s" and t: "t \<le> now_ts"
  shows "server_inv now_ts (snd (worker_settle jp gen now_d now_ts s))"
proof (cases "running s")
  case None
  with inv_clock [OF inv t] show ?thesis by (simp add: settle_idle)
next
  case (Some e)
  define s' where "s' = snd (worker_settle jp gen now_d now_ts s)"
  note f = settle_fields [OF Some, of jp gen now_d now_ts, folded s'_def]
  from Some have pend: "pending s = e # requestQueue s" by (simp add: pending_def)
  from inv_distinct [OF inv] have dk: "key e \<notin> key ` set (requestQueue s)"
    and dp: "promise e \<notin> promise ` set (requestQueue s)"
    and dk': "distinct (map key (requestQueue s))"
    and dp': "distinct (map promise (requestQueue s))"
    unfolding pend by auto
  have "server_inv now_ts s'"
  proof (rule server_invI)
    show "distinct (map key (pending s'))" "distinct (map promise (pending s'))"
      unfolding f by (rule dk', rule dp')
    show "\<And>k. inflight s' k = map_of (map (\<lambda>e. (key e, promise e)) (pending s')) k"
    proof -
      fix k
      from dk have "map_of (map (\<lambda>e. (key e, promise e)) (requestQueue s)) (key e) = None"
        by (auto simp add: map_of_eq_None_iff image_iff)
      then show "inflight s' k = map_of (map (\<lambda>e. (key e, promise e)) (pending s')) k"
        unfolding f using inv_inflight [OF inv, of k] by (simp add: pend)
    qed
    show "\<And>e'. e' \<in> set (pending s') \<Longrightarrow> promise e' < promises s'"
      unfolding f using inv_promises [OF inv] by (simp add: pend)
    from inv_flags(1) [OF inv] Some have "isProcessing s" by simp
    from settle_flags [OF Some this, of jp gen now_d now_ts, folded s'_def]
    show "isProcessing s' \<longleftrightarrow> running s' \<noteq> None" "running s' = None \<Longrightarrow> requestQueue s' = []"
      by simp_all
    show "\<And>k p a ts. inflight s' k = Some p \<Longrightarrow> recentAnswers s' k = Some (a, ts)
            \<Longrightarrow> TTL_MS < now_ts - ts"
    proof -
      fix k p a ts
      assume h: "inflight s' k = Some p" "recentAnswers s' k = Some (a, ts)"
      from h(1) have ne: "k \<noteq> key e" and i: "inflight s k = Some p"
        unfolding f by (auto split: if_splits)
      from h(2) ne have "recentAnswers s k = Some (a, ts)"
        unfolding f by (auto split: sum.splits prod.splits)
      from inv_stale [OF inv i this] t show "TTL_MS < now_ts - ts" by simp
    qed
    show "\<And>w. w \<in> set (awaiting s') \<Longrightarrow> fst (snd w) \<in> promise ` set (pending s')"
    proof -
      fix w assume "w \<in> set (awaiting s')"
      then have w: "w \<in> set (awaiting s)" "fst (snd w) \<noteq> promise e"
        unfolding f by auto
      from inv_awaiting [OF inv w(1)] w(2) show "fst (snd w) \<in> promise ` set (pending s')"
        unfolding f pend by auto
    qed
  qed
  then show ?thesis by (simp add: s'_def)
qed

lemma reach_inv: "reach jp t s \<Longrightarrow> server_inv t s"
proof (induction rule: reach.induct)
  case (start t)
  show ?case by (simp add: server_inv_def initial_def pending_def)
next
  case (admit t s now1 now2 now3 caller k rp)
  then show ?case by (intro inv_admit)
next
  case (settle t s now_d now_ts gen)
  then have "server_inv t s" and "t \<le> now_ts" by simp_all
  then show ?case by (rule inv_settle)
qed

lemma reach_settled: "reach JSON_parse 10 settled_state"
  unfolding settled_state_def
  by (rule reach.settle [where t = 0 and now_d = 10], rule reach.admit [where t = 0], rule reach.start)
     simp_all

lemma entry_pending_after_admit:
  assumes "missed k now1 now2 s" and "inflight s k = None"
  shows "\<lparr>key = k, rawPrompt = rp, promise = promises s, startTime = now3\<rparr>
           \<in> set (pending (snd (handler_admit c k rp now1 now2 now3 s)))"
  unfolding admit_new [OF assms]
  by (cases "requestQueue s")
     (auto simp add: processQueue_def nextEntry_def pending_def split: option.splits)

text \<open>
  C4: let a request arrive for a key that has a cache entry, and let the clock not run
  backwards between the sweep and the cache test. If the entry is at most the TTL old at
  the test, the handler returns the entry's answer at once, and nothing changes but the
  sweep: no queue entry, no promise and no reconciliation is created, so no model is
  invoked. If the entry is older than the TTL at the test, it is not returned; if it was
  already older at the sweep, it is deleted. The request then joins the computation in
  flight for its key, if there is one, and otherwise starts a fresh one: a new promise and a
  new queue entry.
\<close>

theorem cache_hit_and_expiry:
  assumes "now1 \<le> now2" and "recentAnswers s k = Some (a, ts)"
  shows "(now2 - ts \<le> TTL_MS \<longrightarrow>
            handler_admit c k rp now1 now2 now3 s =
              (Some (Cached a), s\<lparr>recentAnswers := vacuum now1 (recentAnswers s)\<rparr>))
       \<and> (TTL_MS < now2 - ts \<longrightarrow>
            fst (handler_admit c k rp now1 now2 now3 s) = None
            \<and> (TTL_MS < now1 - ts \<longrightarrow>
                 recentAnswers (snd (handler_admit c k rp now1 now2 now3 s)) k = None)
            \<and> (inflight s k = None \<longrightarrow>
                 inflight (snd (handler_admit c k rp now1 now2 now3 s)) k = Some (promises s)
                 \<and> \<lparr>key = k, rawPrompt = rp, promise = promises s, startTime = now3\<rparr>
                      \<in> set (pending (snd (handler_admit c k rp now1 now2 now3 s))))
            \<and> (\<forall>p. inflight s k = Some p \<longrightarrow>
                 snd (handler_admit c k rp now1 now2 now3 s) =
                   s\<lparr>recentAnswers := vacuum now1 (recentAnswers s),
                     awaiting := awaiting s @ [(c, p, True)]\<rparr>))"
proof (intro conjI impI allI)
  assume "now2 - ts \<le> TTL_MS"
  with assms(1) have "\<not> TTL_MS < now1 - ts" by simp
  from admit_cached [OF assms(2) this \<open>now2 - ts \<le> TTL_MS\<close>]
  show "handler_admit c k rp now1 now2 now3 s =
          (Some (Cached a), s\<lparr>recentAnswers := vacuum now1 (recentAnswers s)\<rparr>)" .
next
  assume old: "TTL_MS < now2 - ts"
  with assms(2) have m: "missed k now1 now2 s" by (simp add: missed_def)
  show "fst (handler_admit c k rp now1 now2 now3 s) = None"
    using admit_coalesced [OF m] admit_new [OF m] by (cases "inflight s k") simp_all
  {
    assume "TTL_MS < now1 - ts"
    with assms(2) have "vacuum now1 (recentAnswers s) k = None" by (simp add: vacuum_None)
    then show "recentAnswers (snd (handler_admit c k rp now1 now2 now3 s)) k = None"
      using admit_coalesced [OF m] admit_new [OF m]
      by (cases "inflight s k") (simp_all add: processQueue_fields)
  }
  {
    assume n: "inflight s k = None"
    show "inflight (snd (handler_admit c k rp now1 now2 now3 s)) k = Some (promises s)"
      by (simp add: admit_new [OF m n] processQueue_fields)
    show "\<lparr>key = k, rawPrompt = rp, promise = promises s, startTime = now3\<rparr>
            \<in> set (pending (snd (handler_admit c k rp now1 now2 now3 s)))"
      by (rule entry_pending_after_admit [OF m n])
  }
  {
    fix p assume "inflight s k = Some p"
    from admit_coalesced [OF m this]
    show "snd (handler_admit c k rp now1 now2 now3 s) =
            s\<lparr>recentAnswers := vacuum now1 (recentAnswers s),
              awaiting := awaiting s @ [(c, p, True)]\<rparr>"
      by simp
  }
qed

theorem cache_hit_and_expiry_witness:
  "(20::int) \<le> 20 \<and> recentAnswers settled_state ''K'' = Some (''A'', 10) \<and>
   20 - 10 \<le> TTL_MS \<and>
   handler_admit 2 ''K'' (PromptString ''Q'') 20 20 20 settled_state =
     (Some (Cached ''A''), settled_state\<lparr>recentAnswers := vacuum 20 (recentAnswers settled_state)\<rparr>) \<and>
   TTL_MS < 120011 - 10 \<and>
   fst (handler_admit 2 ''K'' (PromptString ''Q'') 120011 120011 120011 settled_state) = None \<and>
   recentAnswers (snd (handler_admit 2 ''K'' (PromptString ''Q'') 120011 120011 120011 settled_state)) ''K''
     = None"
proof -
  have c: "recentAnswers settled_state ''K'' = Some (''A'', 10)"
    by code_simp
  have le: "(20::int) \<le> 20" "(120011::int) \<le> 120011" by simp_all
  have t: "20 - 10 \<le> TTL_MS" "TTL_MS < 120011 - 10" by (simp_all add: TTL_MS_def)
  from cache_hit_and_expiry [OF le(1) c, of 2 "PromptString ''Q''" 20]
       cache_hit_and_expiry [OF le(2) c, of 2 "PromptString ''Q''" 120011] c t
  show ?thesis by simp
qed

text \<open>
  C6, as stated, in a state the server reaches: the answer for \<open>K\<close> was cached at time 10;
  a request for \<open>K\<close> is swept at time 120010, when the entry is exactly the TTL old and
  stays, and tested at time 120011, when it is too old to be returned. The request goes in
  flight: \<open>K\<close> has a cache entry and an in-flight handle at once.
\<close>

theorem stale_entry_in_flight_counterexample:
  "reach JSON_parse 120011 tick_state \<and>
   recentAnswers tick_state ''K'' = Some (''A'', 10) \<and>
   inflight tick_state ''K'' = Some 1"
proof -
  have "reach JSON_parse 120011 tick_state"
    unfolding tick_state_def
    by (rule reach.admit [OF reach_settled]) simp_all
  moreover have "recentAnswers tick_state ''K'' = Some (''A'', 10)"
    by code_simp
  moreover have "inflight tick_state ''K'' = Some 1"
    by code_simp
  ultimately show ?thesis by simp
qed

text \<open>
  C6, amended: in every state the server reaches, between two steps of the cooperative
  scheduler, a key in flight has no cache entry that is still within the TTL at the last
  clock reading (it may have an expired one, not yet swept); the unsettled queue entries
  have distinct keys, and the in-flight map holds exactly their keys, each with the promise
  of its entry. The cache and the in-flight map are maps, so a key has at most one entry in
  each.
\<close>

theorem cache_inflight_exclusive:
  assumes "reach jp t s"
  shows "(\<forall>k p a ts. inflight s k = Some p \<and> recentAnswers s k = Some (a, ts) \<longrightarrow> TTL_MS < t - ts)
       \<and> distinct (map key (pending s))
       \<and> (\<forall>k. inflight s k = map_of (map (\<lambda>e. (key e, promise e)) (pending s)) k)"
  using reach_inv [OF assms] inv_stale inv_distinct(1) inv_inflight by blast

theorem cache_inflight_exclusive_witness:
  "reach JSON_parse 10 settled_state \<and>
   recentAnswers settled_state ''K'' = Some (''A'', 10) \<and>
   inflight settled_state ''K'' = None"
proof -
  have c: "recentAnswers settled_state ''K'' = Some (''A'', 10)"
    by code_simp
  have "10 - (10::int) \<le> TTL_MS" by (simp add: TTL_MS_def)
  with cache_inflight_exclusive [OF reach_settled] c have "inflight settled_state ''K'' = None"
    by (cases "inflight settled_state ''K''") force+
  with reach_settled c show ?thesis by simp
qed

lemma reach_missed:
  assumes "reach jp t s" and "inflight s k = Some p" and "t \<le> now1"
  shows "missed k now1 now2 s"
proof (cases "recentAnswers s k")
  case None
  then show ?thesis by (simp add: missed_def)
next
  case (Some ats)
  then obtain a ts where "recentAnswers s k = Some (a, ts)" by (cases ats) simp
  with inv_stale [OF reach_inv [OF assms(1)] assms(2) this] assms(3) show ?thesis
    by (simp add: missed_def)
qed



lemma reach_waiting: "reach JSON_parse 2 waiting_state"
  unfolding waiting_state_def admit_burst.simps
  by (rule reach.admit [where t = 1], rule reach.admit [where t = 0],
      rule reach.admit [where t = 0], rule reach.start) simp_all


text \<open>
  C7: let the queue processor be working on an entry in a state the server reaches. If
  every worker and the judge fail, each handler awaiting the entry's promise answers with
  the one error \<^verbatim>\<open>All models failed including Judge\<close>, and nothing is cached; a later
  request for the same key is then neither answered from the cache nor coalesced: it gets a
  new promise and a new queue entry. Whatever the models do, success or failure, the key
  is removed from the in-flight map.
\<close>

theorem all_failed_terminal:
  assumes "reach jp t s" and "running s = Some e" and "t \<le> now_d" and "now_d \<le> now_ts"
  shows "(\<forall>gen. (\<forall>m\<in>set MODELS.
                    \<not> success (fst (callSingleModel jp gen m (buildPrompt (rawPrompt e)) 3))) \<longrightarrow>
            fst (worker_settle jp gen now_d now_ts s) =
              map (\<lambda>w. (fst w, ServerError ''All models failed including Judge''))
                  (filter (\<lambda>w. fst (snd w) = promise e) (awaiting s))
            \<and> recentAnswers (snd (worker_settle jp gen now_d now_ts s)) = recentAnswers s
            \<and> (\<forall>c rp now1 now2 now3. now_ts \<le> now1 \<and> now1 \<le> now2 \<and> now2 \<le> now3 \<longrightarrow>
                 fst (handler_admit c (key e) rp now1 now2 now3
                        (snd (worker_settle jp gen now_d now_ts s))) = None
                 \<and> inflight (snd (handler_admit c (key e) rp now1 now2 now3
                                   (snd (worker_settle jp gen now_d now_ts s)))) (key e)
                     = Some (promises s)
                 \<and> promises s \<noteq> promise e
                 \<and> \<lparr>key = key e, rawPrompt = rp, promise = promises s, startTime = now3\<rparr>
                      \<in> set (pending (snd (handler_admit c (key e) rp now1 now2 now3
                                             (snd (worker_settle jp gen now_d now_ts s)))))))
       \<and> (\<forall>gen. inflight (snd (worker_settle jp gen now_d now_ts s)) (key e) = None)"
proof (intro conjI allI impI)
  fix gen
  show "inflight (snd (worker_settle jp gen now_d now_ts s)) (key e) = None"
    by (simp add: settle_fields(2) [OF assms(2)])
next
  fix gen
  assume dead: "\<forall>m\<in>set MODELS.
                  \<not> success (fst (callSingleModel jp gen m (buildPrompt (rawPrompt e)) 3))"
  define s' where "s' = snd (worker_settle jp gen now_d now_ts s)"
  have "reconcile jp gen (rawPrompt e) = Inl (JsError ''Error'' ''All models failed including Judge'')"
    by (simp add: reconcile_def ENSEMBLE_MODE_def Let_def all_models_failed [OF dead])
  then have out: "settle_outcome jp gen now_d e
                    = Inl (JsError ''Error'' ''All models failed including Judge'')"
    by (simp add: settle_outcome_def)
  show "fst (worker_settle jp gen now_d now_ts s) =
          map (\<lambda>w. (fst w, ServerError ''All models failed including Judge''))
              (filter (\<lambda>w. fst (snd w) = promise e) (awaiting s))"
    by (simp add: settle_fields(6) [OF assms(2)] out respond_def)
  show cache: "recentAnswers (snd (worker_settle jp gen now_d now_ts s)) = recentAnswers s"
    by (simp add: settle_fields(5) [OF assms(2)] out)
  fix c rp now1 now2 now3
  assume tm: "now_ts \<le> now1 \<and> now1 \<le> now2 \<and> now2 \<le> now3"
  from assms(2) have pe: "pending s = e # requestQueue s" by (simp add: pending_def)
  have inv: "server_inv t s" by (rule reach_inv [OF assms(1)])
  from inv_inflight [OF inv, of "key e"] have fl: "inflight s (key e) = Some (promise e)"
    by (simp add: pe)
  from assms(3,4) tm have "t \<le> now1" by simp
  from reach_missed [OF assms(1) fl this] cache
  have m: "missed (key e) now1 now2 s'"
    by (simp add: missed_def s'_def)
  have n: "inflight s' (key e) = None"
    by (simp add: s'_def settle_fields(2) [OF assms(2)])
  have p: "promises s' = promises s"
    by (simp add: s'_def settle_fields(4) [OF assms(2)])
  show "fst (handler_admit c (key e) rp now1 now2 now3 (snd (worker_settle jp gen now_d now_ts s)))
          = None"
    using admit_new [OF m n] by (simp add: s'_def)
  show "inflight (snd (handler_admit c (key e) rp now1 now2 now3
                         (snd (worker_settle jp gen now_d now_ts s)))) (key e)
          = Some (promises s)"
    using admit_new [OF m n, of c rp now3] p by (simp add: s'_def processQueue_fields)
  show "promises s \<noteq> promise e"
    using inv_promises [OF inv, of e] by (simp add: pe)
  show "\<lparr>key = key e, rawPrompt = rp, promise = promises s, startTime = now3\<rparr>
          \<in> set (pending (snd (handler_admit c (key e) rp now1 now2 now3
                                 (snd (worker_settle jp gen now_d now_ts s)))))"
    using entry_pending_after_admit [OF m n, of rp now3 c] p by (simp add: s'_def)
qed

theorem all_failed_terminal_witness:
  "reach JSON_parse 2 waiting_state \<and>
   running waiting_state =
     Some \<lparr>key = ''K'', rawPrompt = PromptString ''Q'', promise = 0, startTime = 0\<rparr> \<and>
   fst (worker_settle JSON_parse dead_api 5 5 waiting_state) =
     [(1, ServerError ''All models failed including Judge''),
      (2, ServerError ''All models failed including Judge''),
      (3, ServerError ''All models failed including Judge'')] \<and>
   inflight (snd (worker_settle JSON_parse dead_api 5 5 waiting_state)) ''K'' = None \<and>
   fst (handler_admit 4 ''K'' (PromptString ''Q'') 6 6 6
          (snd (worker_settle JSON_parse dead_api 5 5 waiting_state))) = None \<and>
   inflight (snd (handler_admit 4 ''K'' (PromptString ''Q'') 6 6 6
                   (snd (worker_settle JSON_parse dead_api 5 5 waiting_state)))) ''K'' = Some 1"
proof -
  let ?e = "\<lparr>key = ''K'', rawPrompt = PromptString ''Q'', promise = 0, startTime = 0\<rparr>"
  have run: "running waiting_state = Some ?e"
    by code_simp
  have dead: "\<forall>m\<in>set MODELS.
      \<not> success (fst (callSingleModel JSON_parse dead_api m (buildPrompt (rawPrompt ?e)) 3))"
    by code_simp
  have aw: "filter (\<lambda>w. fst (snd w) = promise ?e) (awaiting waiting_state)
              = [(1, 0, False), (2, 0, True), (3, 0, True)]"
    by code_simp
  have pr: "promises waiting_state = 1"
    by code_simp
  have tm: "(2::int) \<le> 5" "(5::int) \<le> 5" "(5::int) \<le> 6 \<and> (6::int) \<le> 6 \<and> (6::int) \<le> 6"
    by simp_all
  note terminal = all_failed_terminal [OF reach_waiting run tm(1,2)]
  from terminal dead
  have failed: "fst (worker_settle JSON_parse dead_api 5 5 waiting_state) =
      map (\<lambda>w. (fst w, ServerError ''All models failed including Judge''))
          (filter (\<lambda>w. fst (snd w) = promise ?e) (awaiting waiting_state))"
    and again: "\<forall>c rp now1 now2 now3. 5 \<le> now1 \<and> now1 \<le> now2 \<and> now2 \<le> now3 \<longrightarrow>
       fst (handler_admit c (key ?e) rp now1 now2 now3
              (snd (worker_settle JSON_parse dead_api 5 5 waiting_state))) = None
       \<and> inflight (snd (handler_admit c (key ?e) rp now1 now2 now3
                         (snd (worker_settle JSON_parse dead_api 5 5 waiting_state)))) (key ?e)
           = Some (promises waiting_state)
       \<and> promises waiting_state \<noteq> promise ?e
       \<and> \<lparr>key = key ?e, rawPrompt = rp, promise = promises waiting_state, startTime = now3\<rparr>
            \<in> set (pending (snd (handler_admit c (key ?e) rp now1 now2 now3
                                   (snd (worker_settle JSON_parse dead_api 5 5 waiting_state)))))"
    and gone: "inflight (snd (worker_settle JSON_parse dead_api 5 5 waiting_state)) (key ?e) = None"
    by blast+
  from failed aw
  have d: "fst (worker_settle JSON_parse dead_api 5 5 waiting_state) =
     [(1, ServerError ''All models failed including Judge''),
      (2, ServerError ''All models failed including Judge''),
      (3, ServerError ''All models failed including Judge'')]"
    by simp
  from again [rule_format, of 6 6 6 4 "PromptString ''Q''"] pr
  have fresh: "fst (handler_admit 4 ''K'' (PromptString ''Q'') 6 6 6
          (snd (worker_settle JSON_parse dead_api 5 5 waiting_state))) = None"
    "inflight (snd (handler_admit 4 ''K'' (PromptString ''Q'') 6 6 6
                   (snd (worker_settle JSON_parse dead_api 5 5 waiting_state)))) ''K'' = Some 1"
    by simp_all
  from reach_waiting run d gone fresh show ?thesis by simp
qed

end
